theory Spec2Isabelle
  imports Complex_Main "HOL-Library.Sublist"
begin

section \<open>JavaScript values\<close>

text \<open>
  The values the pipeline handles come out of \<^verbatim>\<open>JSON.parse\<close>; \<open>Undefined\<close> is added
  for the result of reading a property that is not there.  An object is the list of its
  own properties in insertion order.  Strings are lists of code units below 256.
\<close>

datatype jsval =
    Undefined
  | Null
  | Bool bool
  | Num rat
  | Str string
  | Arr "jsval list"
  | Obj "(string \<times> jsval) list"

text \<open>
  What the JavaScript platform, not the repository, provides: \<^verbatim>\<open>JSON.parse\<close>
  (\<open>None\<close> is its SyntaxError), \<^verbatim>\<open>JSON.stringify\<close>, the conversions between numbers
  and strings, and the identifier that \<^verbatim>\<open>parseToolCalls\<close> builds from
  \<^verbatim>\<open>Date.now()\<close> and \<^verbatim>\<open>Math.random()\<close> (here indexed by the position of the block
  it is generated for).
\<close>

record platform =
  JSON_parse :: "string \<Rightarrow> jsval option"
  JSON_stringify :: "jsval \<Rightarrow> string"
  Number_toString :: "rat \<Rightarrow> string"
  String_toNumber :: "string \<Rightarrow> rat option"
  generate_call_id :: "nat \<Rightarrow> string"

fun truthy :: "jsval \<Rightarrow> bool" where
  "truthy Undefined = False"
| "truthy Null = False"
| "truthy (Bool b) = b"
| "truthy (Num n) = (n \<noteq> 0)"
| "truthy (Str s) = (s \<noteq> [])"
| "truthy (Arr xs) = True"
| "truthy (Obj kvs) = True"

fun nullish :: "jsval \<Rightarrow> bool" where
  "nullish Undefined = True"
| "nullish Null = True"
| "nullish v = False"

fun isArray :: "jsval \<Rightarrow> bool" where
  "isArray (Arr xs) = True"
| "isArray v = False"

fun typeof_object :: "jsval \<Rightarrow> bool" where
  "typeof_object Null = True"
| "typeof_object (Arr xs) = True"
| "typeof_object (Obj kvs) = True"
| "typeof_object v = False"

text \<open>
  \<open>member v k\<close> is \<^verbatim>\<open>v.k\<close> for a receiver that is neither null nor undefined (on those
  the read throws a TypeError, which every caller below checks first).
\<close>

fun member :: "jsval \<Rightarrow> string \<Rightarrow> jsval" where
  "member (Obj kvs) k = (case map_of kvs k of Some v \<Rightarrow> v | None \<Rightarrow> Undefined)"
| "member (Arr xs) k = (if k = ''length'' then Num (of_nat (length xs)) else Undefined)"
| "member (Str s) k = (if k = ''length'' then Num (of_nat (length s)) else Undefined)"
| "member v k = Undefined"

definition or_else :: "jsval \<Rightarrow> jsval \<Rightarrow> jsval" where
  "or_else a b = (if truthy a then a else b)"

section \<open>String conversion and comparison of JavaScript values\<close>

fun join :: "string \<Rightarrow> string list \<Rightarrow> string" where
  "join sep [] = []"
| "join sep [x] = x"
| "join sep (x # y # ys) = x @ sep @ join sep (y # ys)"

text \<open>
  \<^verbatim>\<open>text += v\<close> converts \<open>v\<close> to a string: an array is the comma-joined conversion of
  its elements (null and undefined elements giving the empty string), an object parsed
  from JSON (with no \<^verbatim>\<open>toString\<close> or \<^verbatim>\<open>valueOf\<close> key of its own) is
  \<^verbatim>\<open>[object Object]\<close>.
\<close>

fun ToString :: "platform \<Rightarrow> jsval \<Rightarrow> string" where
  "ToString P Undefined = ''undefined''"
| "ToString P Null = ''null''"
| "ToString P (Bool b) = (if b then ''true'' else ''false'')"
| "ToString P (Num n) = Number_toString P n"
| "ToString P (Str s) = s"
| "ToString P (Arr xs) = join '','' (map (\<lambda>x. if nullish x then [] else ToString P x) xs)"
| "ToString P (Obj kvs) = ''[object Object]''"

text \<open>\<^verbatim>\<open>v > 0\<close>: \<open>None\<close> is NaN, which compares false.\<close>

fun ToNumber :: "platform \<Rightarrow> jsval \<Rightarrow> rat option" where
  "ToNumber P Undefined = None"
| "ToNumber P Null = Some 0"
| "ToNumber P (Bool b) = Some (if b then 1 else 0)"
| "ToNumber P (Num n) = Some n"
| "ToNumber P (Str s) = String_toNumber P s"
| "ToNumber P (Arr xs) = String_toNumber P (ToString P (Arr xs))"
| "ToNumber P (Obj kvs) = String_toNumber P (ToString P (Obj kvs))"

definition greater_than_zero :: "platform \<Rightarrow> jsval \<Rightarrow> bool" where
  "greater_than_zero P v = (case ToNumber P v of None \<Rightarrow> False | Some n \<Rightarrow> 0 < n)"

text \<open>The message of the TypeError that reading property \<open>k\<close> of null or undefined throws.\<close>

definition cannot_read :: "jsval \<Rightarrow> string \<Rightarrow> string" where
  "cannot_read v k =
     ''Cannot read properties of '' @ (case v of Null \<Rightarrow> ''null'' | _ \<Rightarrow> ''undefined'')
       @ '' (reading '' @ [CHR 0x27] @ k @ [CHR 0x27] @ '')''"

section \<open>The SSE session: \<^verbatim>\<open>StreamingResponse\<close>\<close>

datatype delta =
    Role_delta
  | Content_delta string
  | Tool_calls_delta jsval
  | Empty_delta

datatype payload =
    Chunk_payload string delta "string option"
  | Error_payload string string string

datatype frame = Data payload | Done_marker

text \<open>
  \<open>Role_delta\<close> is \<^verbatim>\<open>{ role: 'assistant', content: '' }\<close>, \<open>Content_delta c\<close> is
  \<^verbatim>\<open>{ content: c }\<close>, \<open>Tool_calls_delta t\<close> is \<^verbatim>\<open>{ tool_calls: t }\<close> and \<open>Empty_delta\<close> is
  \<^verbatim>\<open>{}\<close>.  \<open>Chunk_payload model d fr\<close> is the object \<^verbatim>\<open>createStreamingChunk\<close>
  builds around a delta (its random \<^verbatim>\<open>id\<close> and its \<^verbatim>\<open>created\<close> timestamp are left out);
  \<open>Error_payload message type code\<close> is what \<^verbatim>\<open>writeError\<close> builds.

  The transport \<^verbatim>\<open>res\<close> is the list of frames it has accepted, whether it was ended,
  and its failures: \<open>res_throws n\<close> tells whether the \<open>n\<close>-th call made on it throws.
\<close>

record StreamingResponse =
  closed :: bool
  sentData :: bool
  request_model :: string
  res_frames :: "frame list"
  res_ended :: bool
  res_calls :: nat
  res_throws :: "nat \<Rightarrow> bool"

definition createStream :: "(nat \<Rightarrow> bool) \<Rightarrow> string \<Rightarrow> StreamingResponse" where
  "createStream throws model =
     \<lparr> closed = False, sentData = False, request_model = model,
       res_frames = [], res_ended = False, res_calls = 0, res_throws = throws \<rparr>"

text \<open>\<^verbatim>\<open>res.write(frame)\<close> and \<^verbatim>\<open>res.end()\<close>: \<open>Inl\<close> is the exception.\<close>

definition res_write :: "frame \<Rightarrow> StreamingResponse \<Rightarrow> unit + StreamingResponse" where
  "res_write f s =
     (if res_throws s (res_calls s) then Inl ()
      else Inr (s\<lparr>res_frames := res_frames s @ [f], res_calls := Suc (res_calls s)\<rparr>))"

definition res_end :: "StreamingResponse \<Rightarrow> unit + StreamingResponse" where
  "res_end s =
     (if res_throws s (res_calls s) then Inl ()
      else Inr (s\<lparr>res_ended := True, res_calls := Suc (res_calls s)\<rparr>))"

text \<open>The two listeners of \<^verbatim>\<open>setupCleanup\<close>.\<close>

definition on_close :: "StreamingResponse \<Rightarrow> StreamingResponse" where
  "on_close s = s\<lparr>closed := True\<rparr>"

definition on_error :: "StreamingResponse \<Rightarrow> StreamingResponse" where
  "on_error s = s\<lparr>closed := True\<rparr>"

definition write_sse :: "payload \<Rightarrow> StreamingResponse \<Rightarrow> bool \<times> StreamingResponse" where
  "write_sse d s =
     (if closed s then (False, s)
      else (case res_write (Data d) s of
              Inr s' \<Rightarrow> (True, s'\<lparr>sentData := True\<rparr>)
            | Inl u \<Rightarrow> (False, s\<lparr>closed := True, res_calls := Suc (res_calls s)\<rparr>)))"

definition writeChunk :: "delta \<Rightarrow> string option \<Rightarrow> StreamingResponse \<Rightarrow> bool \<times> StreamingResponse" where
  "writeChunk d finishReason s = write_sse (Chunk_payload (request_model s) d finishReason) s"

definition writeError :: "string \<Rightarrow> StreamingResponse \<Rightarrow> bool \<times> StreamingResponse" where
  "writeError message s = write_sse (Error_payload message ''streaming_error'' ''error'') s"

definition end_stream :: "StreamingResponse \<Rightarrow> StreamingResponse" where
  "end_stream s =
     (if closed s then s
      else (case res_write Done_marker s of
              Inl u \<Rightarrow> s\<lparr>res_calls := Suc (res_calls s)\<rparr>
            | Inr s1 \<Rightarrow>
                (case res_end s1 of
                   Inl u \<Rightarrow> s1\<lparr>res_calls := Suc (res_calls s1)\<rparr>
                 | Inr s2 \<Rightarrow> s2\<lparr>closed := True\<rparr>)))"

definition isClosed :: "StreamingResponse \<Rightarrow> bool" where
  "isClosed s = closed s"

definition hasSentData :: "StreamingResponse \<Rightarrow> bool" where
  "hasSentData s = sentData s"

text \<open>Everything that can happen to a session, to state what holds whatever happens.\<close>

datatype session_op =
    Op_write payload
  | Op_writeChunk delta "string option"
  | Op_writeError string
  | Op_end
  | Op_on_close
  | Op_on_error

fun session_step :: "session_op \<Rightarrow> StreamingResponse \<Rightarrow> StreamingResponse" where
  "session_step (Op_write d) s = snd (write_sse d s)"
| "session_step (Op_writeChunk d fr) s = snd (writeChunk d fr s)"
| "session_step (Op_writeError m) s = snd (writeError m s)"
| "session_step Op_end s = end_stream s"
| "session_step Op_on_close s = on_close s"
| "session_step Op_on_error s = on_error s"

fun session_run :: "session_op list \<Rightarrow> StreamingResponse \<Rightarrow> StreamingResponse" where
  "session_run [] s = s"
| "session_run (x # xs) s = session_run xs (session_step x s)"

section \<open>The output normalizer: \<^verbatim>\<open>StreamingManager.parseClaudeChunk\<close>\<close>

datatype parsed_chunk =
    Empty_chunk
  | Assistant_message jsval
  | Tool_calls jsval
  | System_chunk jsval
  | Unknown_chunk jsval
  | Error_chunk string

subsection \<open>\<^verbatim>\<open>extractContent\<close>\<close>

text \<open>What one iteration of the loop over the blocks appends to \<^verbatim>\<open>extractedText\<close>.\<close>

definition block_text :: "platform \<Rightarrow> jsval \<Rightarrow> string" where
  "block_text P block =
     (case block of
        Str s \<Rightarrow> s
      | _ \<Rightarrow>
         if truthy block \<and> typeof_object block then
           (if truthy (member block ''text'') then ToString P (member block ''text'')
            else if member block ''type'' = Str ''text'' \<and> truthy (member block ''text'')
              then ToString P (member block ''text'')
            else if truthy (member block ''content'') then ToString P (member block ''content'')
            else [])
         else [])"

fun extract_loop :: "platform \<Rightarrow> string \<Rightarrow> jsval list \<Rightarrow> string" where
  "extract_loop P extractedText [] = extractedText"
| "extract_loop P extractedText (block # rest) =
     extract_loop P (extractedText @ block_text P block) rest"

definition extractContent :: "platform \<Rightarrow> jsval \<Rightarrow> string" where
  "extractContent P content =
     (case content of
        Str s \<Rightarrow> s
      | Arr blocks \<Rightarrow> extract_loop P [] blocks
      | _ \<Rightarrow> [])"

subsection \<open>\<^verbatim>\<open>parseToolCalls\<close>\<close>

definition is_tool_use :: "jsval \<Rightarrow> bool" where
  "is_tool_use block = (member block ''type'' = Str ''tool_use'')"

text \<open>
  \<^verbatim>\<open>blocks.filter(block => block.type === 'tool_use')\<close> reads \<^verbatim>\<open>.type\<close> of every element,
  and so throws on the first null one; \<^verbatim>\<open>blocks.some(...)\<close> stops at the first hit.
\<close>

fun filter_tool_use :: "jsval list \<Rightarrow> string + jsval list" where
  "filter_tool_use [] = Inr []"
| "filter_tool_use (block # rest) =
     (if nullish block then Inl (cannot_read block ''type'')
      else (case filter_tool_use rest of
              Inl e \<Rightarrow> Inl e
            | Inr r \<Rightarrow> Inr (if is_tool_use block then block # r else r)))"

fun some_tool_use :: "jsval list \<Rightarrow> string + bool" where
  "some_tool_use [] = Inr False"
| "some_tool_use (block # rest) =
     (if nullish block then Inl (cannot_read block ''type'')
      else if is_tool_use block then Inr True
      else some_tool_use rest)"

fun elements :: "jsval \<Rightarrow> jsval list" where
  "elements (Arr xs) = xs"
| "elements v = []"

definition tool_call :: "platform \<Rightarrow> nat \<Rightarrow> jsval \<Rightarrow> jsval" where
  "tool_call P i block =
     Obj [(''id'', or_else (member block ''id'') (Str (generate_call_id P i))),
          (''type'', Str ''function''),
          (''function'',
             Obj [(''name'', member block ''name''),
                  (''arguments'', Str (JSON_stringify P (or_else (member block ''input'') (Obj []))))])]"

definition tool_calls_of :: "platform \<Rightarrow> jsval list \<Rightarrow> jsval list" where
  "tool_calls_of P toolUseBlocks =
     map (\<lambda>(i, block). tool_call P i block) (enumerate 0 toolUseBlocks)"

definition parseToolCalls :: "platform \<Rightarrow> jsval \<Rightarrow> string + parsed_chunk" where
  "parseToolCalls P chunk =
     (case (if truthy (member chunk ''tool_calls'') then Inr (member chunk ''tool_calls'')
            else if truthy (member chunk ''content'') \<and> isArray (member chunk ''content'') then
              (case filter_tool_use (elements (member chunk ''content'')) of
                 Inl e \<Rightarrow> Inl e
               | Inr toolUseBlocks \<Rightarrow> Inr (Arr (tool_calls_of P toolUseBlocks)))
            else Inr (Arr [])) of
        Inl e \<Rightarrow> Inl e
      | Inr toolCalls \<Rightarrow>
          if greater_than_zero P (member toolCalls ''length'') then Inr (Tool_calls toolCalls)
          else Inr (Assistant_message
                 (Str (extractContent P (or_else (member chunk ''content'') chunk)))))"

subsection \<open>\<^verbatim>\<open>normalizeClaudeChunk\<close>\<close>

text \<open>
  The block for \<^verbatim>\<open>chunk.type === 'assistant' && chunk.message\<close>: \<open>Inr (Some r)\<close> when it
  returns \<open>r\<close>, \<open>Inr None\<close> when control falls through to the checks after it.
\<close>

definition assistant_envelope :: "platform \<Rightarrow> jsval \<Rightarrow> string + parsed_chunk option" where
  "assistant_envelope P chunk =
     (if member chunk ''type'' = Str ''assistant'' \<and> truthy (member chunk ''message'') then
        (let content = member (member chunk ''message'') ''content'' in
         if truthy content \<and> isArray content then
           (case filter_tool_use (elements content) of
              Inl e \<Rightarrow> Inl e
            | Inr toolUseBlocks \<Rightarrow>
                if toolUseBlocks \<noteq> [] then
                  (case parseToolCalls P (Obj [(''content'', content)]) of
                     Inl e \<Rightarrow> Inl e
                   | Inr r \<Rightarrow> Inr (Some r))
                else if extractContent P content \<noteq> [] then
                  Inr (Some (Assistant_message (Str (extractContent P content))))
                else Inr None)
         else Inr None)
      else Inr None)"

definition has_tool_calls :: "jsval \<Rightarrow> string + bool" where
  "has_tool_calls chunk =
     (if truthy (member chunk ''tool_calls'') then Inr True
      else if truthy (member chunk ''content'') \<and> isArray (member chunk ''content'') then
        some_tool_use (elements (member chunk ''content''))
      else Inr False)"

definition normalizeClaudeChunk :: "platform \<Rightarrow> jsval \<Rightarrow> string + parsed_chunk" where
  "normalizeClaudeChunk P chunk =
     (if nullish chunk then Inl (cannot_read chunk ''type'')
      else if member chunk ''type'' = Str ''system'' \<or> member chunk ''type'' = Str ''result''
              \<or> member chunk ''type'' = Str ''user'' then Inr (System_chunk chunk)
      else (case assistant_envelope P chunk of
              Inl e \<Rightarrow> Inl e
            | Inr (Some r) \<Rightarrow> Inr r
            | Inr None \<Rightarrow>
               (case has_tool_calls chunk of
                  Inl e \<Rightarrow> Inl e
                | Inr True \<Rightarrow> parseToolCalls P chunk
                | Inr False \<Rightarrow>
                    if truthy (member chunk ''content'') \<and> isArray (member chunk ''content'') then
                      Inr (Assistant_message (Str (extractContent P (member chunk ''content''))))
                    else if member chunk ''type'' = Str ''text'' \<and> truthy (member chunk ''content'')
                      then Inr (Assistant_message (member chunk ''content''))
                    else (case chunk of
                            Str s \<Rightarrow> Inr (Assistant_message chunk)
                          | _ \<Rightarrow> Inr (Unknown_chunk chunk)))))"

subsection \<open>\<^verbatim>\<open>parseClaudeChunk\<close>\<close>

definition is_space :: "char \<Rightarrow> bool" where
  "is_space c = (c \<in> set [CHR 0x09, CHR 0x0A, CHR 0x0B, CHR 0x0C, CHR 0x0D, CHR 0x20, CHR 0xA0])"

definition trim :: "string \<Rightarrow> string" where
  "trim s = rev (dropWhile is_space (rev (dropWhile is_space s)))"

text \<open>
  A string chunk is parsed inside an inner \<^verbatim>\<open>try\<close> that also covers the debug line
  reading \<^verbatim>\<open>parsed.type\<close> and the call of \<^verbatim>\<open>normalizeClaudeChunk\<close>: whatever is thrown
  there makes the chunk raw text.  For an object chunk the outer \<^verbatim>\<open>catch\<close> turns the
  exception into an error chunk.
\<close>

definition parseClaudeChunk :: "platform \<Rightarrow> jsval \<Rightarrow> parsed_chunk" where
  "parseClaudeChunk P chunk =
     (if typeof_object chunk then
        (case normalizeClaudeChunk P chunk of
           Inl e \<Rightarrow> Error_chunk e
         | Inr r \<Rightarrow> r)
      else (case chunk of
              Str s \<Rightarrow>
                if trim s = [] then Empty_chunk
                else (case JSON_parse P s of
                        None \<Rightarrow> Assistant_message chunk
                      | Some parsed \<Rightarrow>
                          (case normalizeClaudeChunk P parsed of
                             Inl e \<Rightarrow> Assistant_message chunk
                           | Inr r \<Rightarrow> r))
            | _ \<Rightarrow> Unknown_chunk chunk))"

section \<open>The content filter: \<^verbatim>\<open>StreamingManager.filterContent\<close>\<close>

text \<open>
  \<^verbatim>\<open>s.replace(/OPEN[\s\S]*?CLOSE/g, '')\<close>.  The scan goes left to right; where \<open>OPEN\<close>
  starts, the lazy \<^verbatim>\<open>[\s\S]*?\<close> runs to the first \<open>CLOSE\<close> after it, the match is dropped
  and the scan goes on behind it; with no \<open>CLOSE\<close> ahead there is no match at this
  position and the character is kept.  \<open>skip_past cls s\<close> is what follows the first
  \<open>cls\<close> in \<open>s\<close>.
\<close>

fun skip_past :: "string \<Rightarrow> string \<Rightarrow> string option" where
  "skip_past cls [] = (if cls = [] then Some [] else None)"
| "skip_past cls (c # cs) =
     (if prefix cls (c # cs) then Some (drop (length cls) (c # cs)) else skip_past cls cs)"

lemma skip_past_length: "skip_past cls s = Some r \<Longrightarrow> length r \<le> length s"
  by (induction s) (auto split: if_splits)

function remove_blocks :: "string \<Rightarrow> string \<Rightarrow> string \<Rightarrow> string" where
  "remove_blocks opn cls [] = []"
| "remove_blocks opn cls (c # cs) =
     (if opn \<noteq> [] \<and> prefix opn (c # cs) then
        (case skip_past cls (drop (length opn) (c # cs)) of
           Some rest \<Rightarrow> remove_blocks opn cls rest
         | None \<Rightarrow> c # remove_blocks opn cls cs)
      else c # remove_blocks opn cls cs)"
  by pat_completeness auto
termination
  by (relation "measure (\<lambda>(opn, cls, s). length s)")
    (auto dest!: skip_past_length simp: neq_Nil_conv)

text \<open>
  \<^verbatim>\<open>s.replace(/OPEN.*?\]/g, '')\<close>: the dot matches no line terminator, so the lazy
  \<^verbatim>\<open>.*?\<close> runs to the first \<^verbatim>\<open>]\<close> and fails at a line break before it.
\<close>

definition is_line_terminator :: "char \<Rightarrow> bool" where
  "is_line_terminator c = (c = CHR 0x0A \<or> c = CHR 0x0D)"

fun skip_to_bracket :: "string \<Rightarrow> string option" where
  "skip_to_bracket [] = None"
| "skip_to_bracket (c # cs) =
     (if c = CHR '']'' then Some cs
      else if is_line_terminator c then None
      else skip_to_bracket cs)"

lemma skip_to_bracket_length: "skip_to_bracket s = Some r \<Longrightarrow> length r \<le> length s"
  by (induction s) (auto split: if_splits)

function remove_markers :: "string \<Rightarrow> string \<Rightarrow> string" where
  "remove_markers opn [] = []"
| "remove_markers opn (c # cs) =
     (if opn \<noteq> [] \<and> prefix opn (c # cs) then
        (case skip_to_bracket (drop (length opn) (c # cs)) of
           Some rest \<Rightarrow> remove_markers opn rest
         | None \<Rightarrow> c # remove_markers opn cs)
      else c # remove_markers opn cs)"
  by pat_completeness auto
termination
  by (relation "measure (\<lambda>(opn, s). length s)")
    (auto dest!: skip_to_bracket_length simp: neq_Nil_conv)

text \<open>
  \<^verbatim>\<open>s.replace(/\n\s*\n\s*\n/g, '\n\n')\<close>.  A match can only start at a newline and lies
  inside the run of whitespace that follows it (\<open>blank_run\<close>), so there is one exactly
  when that run holds two more newlines.  Both \<^verbatim>\<open>\s*\<close> are greedy: the first takes as
  much as leaves two newlines, the second everything up to the last newline of the run,
  so the match ends with the last newline of the run (\<open>match_end\<close> characters after the
  first).  The scan goes on behind the match.
\<close>

definition newline :: char where
  "newline = CHR 0x0A"

definition blank_run :: "string \<Rightarrow> string" where
  "blank_run cs = takeWhile is_space cs"

definition match_end :: "string \<Rightarrow> nat" where
  "match_end cs =
     length (blank_run cs) - length (takeWhile (\<lambda>x. x \<noteq> newline) (rev (blank_run cs)))"

function collapse_newlines :: "string \<Rightarrow> string" where
  "collapse_newlines [] = []"
| "collapse_newlines (c # cs) =
     (if c = newline \<and> 2 \<le> count_list (blank_run cs) newline
      then newline # newline # collapse_newlines (drop (match_end cs) cs)
      else c # collapse_newlines cs)"
  by pat_completeness auto
termination
  by (relation "measure length") auto

text \<open>
  \<^verbatim>\<open>filterContent\<close> on a string (on anything else, and on the empty string, it returns
  its argument).
\<close>

definition filterContent :: "string \<Rightarrow> string" where
  "filterContent content =
     (if content = [] then content
      else
        (let filtered = remove_blocks ''<function_calls>'' ''</antml:function_calls>'' content;
             filtered = remove_blocks ''<thinking>'' ''</antml:thinking>'' filtered;
             filtered = remove_markers ''[Tool Use:'' filtered;
             filtered = remove_markers ''[File: '' filtered;
             filtered = trim (collapse_newlines filtered)
         in filtered))"

section \<open>Where the content filter finds something to remove\<close>

text \<open>
  \<open>has_block opn cls s\<close>: the expression \<^verbatim>\<open>/OPEN[\s\S]*?CLOSE/\<close> has a match in \<open>s\<close>;
  \<open>has_marker opn s\<close>: the expression \<^verbatim>\<open>/OPEN.*?\]/\<close> has one; \<open>collapsible s\<close>:
  \<^verbatim>\<open>/\n\s*\n\s*\n/\<close> has one.  \<open>contains_markers s\<close>: one of the four marker expressions
  of \<^verbatim>\<open>filterContent\<close> has a match in \<open>s\<close>.
\<close>

fun has_block :: "string \<Rightarrow> string \<Rightarrow> string \<Rightarrow> bool" where
  "has_block opn cls [] = False"
| "has_block opn cls (c # cs) =
     ((opn \<noteq> [] \<and> prefix opn (c # cs) \<and> skip_past cls (drop (length opn) (c # cs)) \<noteq> None)
      \<or> has_block opn cls cs)"

fun has_marker :: "string \<Rightarrow> string \<Rightarrow> bool" where
  "has_marker opn [] = False"
| "has_marker opn (c # cs) =
     ((opn \<noteq> [] \<and> prefix opn (c # cs) \<and> skip_to_bracket (drop (length opn) (c # cs)) \<noteq> None)
      \<or> has_marker opn cs)"

fun collapsible :: "string \<Rightarrow> bool" where
  "collapsible [] = False"
| "collapsible (c # cs) =
     ((c = newline \<and> 2 \<le> count_list (blank_run cs) newline) \<or> collapsible cs)"

definition contains_markers :: "string \<Rightarrow> bool" where
  "contains_markers s =
     (has_block ''<function_calls>'' ''</antml:function_calls>'' s
      \<or> has_block ''<thinking>'' ''</antml:thinking>'' s
      \<or> has_marker ''[Tool Use:'' s
      \<or> has_marker ''[File: '' s)"

section \<open>The translation state machine: \<^verbatim>\<open>StreamingManager.processClaudeStream\<close>\<close>

text \<open>
  The locals of \<^verbatim>\<open>processClaudeStream\<close>, and two records of what it has done:
  \<open>callbackCalls\<close> lists the arguments \<^verbatim>\<open>contentCallback\<close> was called with, and
  \<open>writeChunkCalls\<close> the arguments of its calls of \<^verbatim>\<open>stream.writeChunk\<close>, in order,
  whether the session passed them on to the transport or, being closed, dropped them.
\<close>

record locals =
  roleSent :: bool
  contentSent :: bool
  assistantContent :: string
  chunkCount :: nat
  callbackCalls :: "string list"
  writeChunkCalls :: "(delta \<times> string option) list"

definition initial_locals :: locals where
  "initial_locals =
     \<lparr> roleSent = False, contentSent = False, assistantContent = [], chunkCount = 0,
       callbackCalls = [], writeChunkCalls = [] \<rparr>"

text \<open>
  What \<^verbatim>\<open>for await (const chunk of claudeStream)\<close> meets: the chunks the generator
  yields, and between them (while the loop awaits) the \<^verbatim>\<open>close\<close> or \<^verbatim>\<open>error\<close> event of
  the response, if the client goes away; at the end the generator returns or throws.
\<close>

datatype feed = Yield jsval | Client_gone

datatype generator_end = Returned | Thrown string

definition fallbackMessage :: string where
  "fallbackMessage = ''I'' @ [CHR 0x27] @ ''m unable to provide a response at the moment.''"

definition no_response_message :: string where
  "no_response_message = ''No response from Claude CLI - check configuration and authentication''"

definition trim_not_a_function :: string where
  "trim_not_a_function = ''parsedChunk.content.trim is not a function''"

text \<open>The statement \<^verbatim>\<open>stream.writeChunk(delta, finishReason)\<close>.\<close>

definition call_writeChunk ::
  "delta \<Rightarrow> string option \<Rightarrow> locals \<times> StreamingResponse \<Rightarrow> locals \<times> StreamingResponse" where
  "call_writeChunk d finishReason st =
     ((fst st)\<lparr>writeChunkCalls := writeChunkCalls (fst st) @ [(d, finishReason)]\<rparr>,
      snd (writeChunk d finishReason (snd st)))"

definition send_role :: "locals \<times> StreamingResponse \<Rightarrow> locals \<times> StreamingResponse" where
  "send_role st =
     (if \<not> roleSent (fst st) then
        (case call_writeChunk Role_delta None st of (l, s) \<Rightarrow> (l\<lparr>roleSent := True\<rparr>, s))
      else st)"

definition send_content :: "string \<Rightarrow> locals \<times> StreamingResponse \<Rightarrow> locals \<times> StreamingResponse" where
  "send_content filteredContent st =
     (case call_writeChunk (Content_delta filteredContent) None st of (l, s) \<Rightarrow>
        (l\<lparr>assistantContent := assistantContent l @ filteredContent, contentSent := True,
            callbackCalls := callbackCalls l @ [filteredContent]\<rparr>, s))"

text \<open>The body of the loop after the disconnect check, by the type of the parsed chunk.\<close>

fun process_chunk ::
  "parsed_chunk \<Rightarrow> locals \<times> StreamingResponse \<Rightarrow> (string + unit) \<times> locals \<times> StreamingResponse" where
  "process_chunk (Assistant_message content) st =
     (let st1 = send_role st in
      case content of
        Str c \<Rightarrow>
          if c \<noteq> [] \<and> trim c \<noteq> [] then
            (if filterContent c \<noteq> [] then (Inr (), send_content (filterContent c) st1)
             else (Inr (), st1))
          else (Inr (), st1)
      | _ \<Rightarrow>
          if truthy content then (Inl trim_not_a_function, st1) else (Inr (), st1))"
| "process_chunk (Tool_calls tool_calls) st =
     (let st1 = send_role st in
      if truthy tool_calls then
        (case call_writeChunk (Tool_calls_delta tool_calls) None st1 of (l, s) \<Rightarrow>
           (Inr (), l\<lparr>contentSent := True\<rparr>, s))
      else (Inr (), st1))"
| "process_chunk (Error_chunk e) st =
     (Inl (if e \<noteq> [] then e else ''Claude stream error''), st)"
| "process_chunk other st = (Inr (), st)"

fun chunk_loop ::
  "platform \<Rightarrow> feed list \<Rightarrow> generator_end \<Rightarrow> locals \<times> StreamingResponse
     \<Rightarrow> (string + unit) \<times> locals \<times> StreamingResponse" where
  "chunk_loop P [] Returned st = (Inr (), st)"
| "chunk_loop P [] (Thrown e) st = (Inl e, st)"
| "chunk_loop P (Client_gone # rest) g st = chunk_loop P rest g (fst st, on_close (snd st))"
| "chunk_loop P (Yield chunk # rest) g st =
     (let l = (fst st)\<lparr>chunkCount := Suc (chunkCount (fst st))\<rparr> in
      if isClosed (snd st) then (Inr (), l, snd st)
      else (case process_chunk (parseClaudeChunk P chunk) (l, snd st) of
              (Inl e, st') \<Rightarrow> (Inl e, st')
            | (Inr u, st') \<Rightarrow> chunk_loop P rest g st'))"

text \<open>
  The statements between the loop and \<^verbatim>\<open>return assistantContent\<close>: first the
  fallback message or the late role, then the final chunk.
\<close>

definition fallback_or_role :: "locals \<times> StreamingResponse \<Rightarrow> locals \<times> StreamingResponse" where
  "fallback_or_role st =
     (if roleSent (fst st) \<and> \<not> contentSent (fst st) then
        (case call_writeChunk (Content_delta fallbackMessage) None st of (l, s) \<Rightarrow>
           (l\<lparr>assistantContent := fallbackMessage,
               callbackCalls := callbackCalls l @ [fallbackMessage]\<rparr>, s))
      else if \<not> roleSent (fst st) then
        (case call_writeChunk Role_delta None st of (l, s) \<Rightarrow> (l\<lparr>roleSent := True\<rparr>, s))
      else st)"

definition final_chunk :: "locals \<times> StreamingResponse \<Rightarrow> locals \<times> StreamingResponse" where
  "final_chunk st =
     (if roleSent (fst st) then call_writeChunk Empty_delta (Some ''stop'') st else st)"

definition after_loop ::
  "locals \<times> StreamingResponse \<Rightarrow> (string + string) \<times> locals \<times> StreamingResponse" where
  "after_loop st =
     (if chunkCount (fst st) = 0 then (Inl no_response_message, st)
      else (let st1 = final_chunk (fallback_or_role st) in (Inr (assistantContent (fst st1)), st1)))"

text \<open>
  The whole function: \<open>Inr\<close> the returned text, \<open>Inl\<close> the message of the error thrown,
  after the \<^verbatim>\<open>catch\<close> block has written it to a session that is not closed.  The
  second component is the final value of the locals, the third the session.
\<close>

definition processClaudeStream ::
  "platform \<Rightarrow> feed list \<Rightarrow> generator_end \<Rightarrow> StreamingResponse
     \<Rightarrow> (string + string) \<times> locals \<times> StreamingResponse" where
  "processClaudeStream P claudeStream g stream =
     (case (case chunk_loop P claudeStream g (initial_locals, stream) of
              (Inl e, st) \<Rightarrow> (Inl e, st)
            | (Inr u, st) \<Rightarrow> after_loop st) of
        (Inl e, l, s) \<Rightarrow> (Inl e, l, if \<not> isClosed s then snd (writeError e s) else s)
      | (Inr text, l, s) \<Rightarrow> (Inr text, l, s))"

section \<open>What was written\<close>

text \<open>Classifying the frames on the transport and the calls of \<^verbatim>\<open>writeChunk\<close>.\<close>

fun delta_of :: "frame \<Rightarrow> delta option" where
  "delta_of (Data (Chunk_payload m d fr)) = Some d"
| "delta_of f = None"

fun is_role_delta :: "delta \<Rightarrow> bool" where
  "is_role_delta Role_delta = True"
| "is_role_delta d = False"

fun is_content_delta :: "delta \<Rightarrow> bool" where
  "is_content_delta (Content_delta c) = True"
| "is_content_delta d = False"

fun is_tool_calls_delta :: "delta \<Rightarrow> bool" where
  "is_tool_calls_delta (Tool_calls_delta t) = True"
| "is_tool_calls_delta d = False"

fun delta_content :: "delta \<Rightarrow> string list" where
  "delta_content (Content_delta c) = [c]"
| "delta_content d = []"

definition is_role_frame :: "frame \<Rightarrow> bool" where
  "is_role_frame f = (case delta_of f of Some d \<Rightarrow> is_role_delta d | None \<Rightarrow> False)"

definition is_content_frame :: "frame \<Rightarrow> bool" where
  "is_content_frame f = (case delta_of f of Some d \<Rightarrow> is_content_delta d | None \<Rightarrow> False)"

definition is_tool_calls_frame :: "frame \<Rightarrow> bool" where
  "is_tool_calls_frame f = (case delta_of f of Some d \<Rightarrow> is_tool_calls_delta d | None \<Rightarrow> False)"

definition terminal_call :: "delta \<times> string option" where
  "terminal_call = (Empty_delta, Some ''stop'')"

definition is_terminal_frame :: "frame \<Rightarrow> bool" where
  "is_terminal_frame f =
     (case f of Data (Chunk_payload m d fr) \<Rightarrow> (d, fr) = terminal_call | _ \<Rightarrow> False)"

definition written_content :: "frame list \<Rightarrow> string list" where
  "written_content w =
     concat (map (\<lambda>f. case delta_of f of Some d \<Rightarrow> delta_content d | None \<Rightarrow> []) w)"

definition called_content :: "(delta \<times> string option) list \<Rightarrow> string list" where
  "called_content calls = concat (map (\<lambda>c. delta_content (fst c)) calls)"

text \<open>The frame a session for model \<open>m\<close> makes of a call of \<^verbatim>\<open>writeChunk\<close>.\<close>

definition frame_of :: "string \<Rightarrow> delta \<times> string option \<Rightarrow> frame" where
  "frame_of m c = Data (Chunk_payload m (fst c) (snd c))"

text \<open>
  What holds of the locals throughout \<^verbatim>\<open>processClaudeStream\<close> up to the final chunk,
  and how the transport of a session created for the request relates to the calls.
\<close>

definition calls_inv :: "locals \<Rightarrow> bool" where
  "calls_inv l =
     ((\<not> roleSent l \<longrightarrow> writeChunkCalls l = [])
    \<and> (writeChunkCalls l \<noteq> [] \<longrightarrow> hd (writeChunkCalls l) = (Role_delta, None)
          \<and> (\<forall>c \<in> set (tl (writeChunkCalls l)). \<not> is_role_delta (fst c)))
    \<and> (\<not> contentSent l \<longrightarrow> assistantContent l = [] \<and> callbackCalls l = []
          \<and> (\<forall>c \<in> set (writeChunkCalls l). \<not> is_content_delta (fst c) \<and> \<not> is_tool_calls_delta (fst c)))
    \<and> (contentSent l \<longrightarrow> roleSent l)
    \<and> (roleSent l \<longrightarrow> writeChunkCalls l \<noteq> [])
    \<and> concat (callbackCalls l) = assistantContent l
    \<and> called_content (writeChunkCalls l) = callbackCalls l
    \<and> terminal_call \<notin> set (writeChunkCalls l)
    \<and> (roleSent l \<longrightarrow> 0 < chunkCount l))"

definition wire_inv :: "string \<Rightarrow> locals \<times> StreamingResponse \<Rightarrow> bool" where
  "wire_inv m st =
     (request_model (snd st) = m
    \<and> prefix (res_frames (snd st)) (map (frame_of m) (writeChunkCalls (fst st)))
    \<and> (\<not> closed (snd st) \<longrightarrow> res_frames (snd st) = map (frame_of m) (writeChunkCalls (fst st))))"

definition role_shape :: "frame list \<Rightarrow> bool" where
  "role_shape w = (w \<noteq> [] \<longrightarrow> is_role_frame (hd w) \<and> (\<forall>f \<in> set (tl w). \<not> is_role_frame f))"

definition late_calls :: "locals \<Rightarrow> (delta \<times> string option) list" where
  "late_calls l =
     (if roleSent l \<and> \<not> contentSent l then [(Content_delta fallbackMessage, None)]
      else if \<not> roleSent l then [(Role_delta, None)]
      else [])"

definition calls_shape :: "(delta \<times> string option) list \<Rightarrow> bool" where
  "calls_shape cs = (cs \<noteq> [] \<longrightarrow> is_role_delta (fst (hd cs)) \<and> (\<forall>c \<in> set (tl cs). \<not> is_role_delta (fst c)))"

section \<open>The subprocess runner: \<^verbatim>\<open>ClaudeProcess.executeStreaming\<close>\<close>

text \<open>
  What a spawned subprocess does, as far as \<^verbatim>\<open>executeStreaming\<close> sees it: the data
  events of its standard output, in order, what it wrote to its standard error, and the
  code it exits with.
\<close>

record subprocess =
  stdout_chunks :: "string list"
  stderr_output :: string
  exit_code :: int

text \<open>Decimal digits, for the exit code in \<^verbatim>\<open>`Process exited with code ${code}`\<close>.\<close>

function decimal :: "nat \<Rightarrow> string" where
  "decimal n =
     (if n < 10 then [''0123456789'' ! n]
      else decimal (n div 10) @ [''0123456789'' ! (n mod 10)])"
  by pat_completeness auto
termination
  by (relation "measure id") auto

declare decimal.simps [simp del]

definition show_int :: "int \<Rightarrow> string" where
  "show_int i = (if i < 0 then ''-'' @ decimal (nat (- i)) else decimal (nat i))"

text \<open>\<^verbatim>\<open>chunk.split('\n')\<close>\<close>

fun split_lines :: "string \<Rightarrow> string list" where
  "split_lines [] = [[]]"
| "split_lines (c # cs) =
     (if c = newline then [] # split_lines cs
      else (case split_lines cs of
              l # ls \<Rightarrow> (c # l) # ls
            | [] \<Rightarrow> [[c]]))"

definition parseClaudeOutput :: "platform \<Rightarrow> string \<Rightarrow> jsval" where
  "parseClaudeOutput P line =
     (case JSON_parse P line of
        Some parsed \<Rightarrow> parsed
      | None \<Rightarrow> Obj [(''type'', Str ''text''), (''content'', Str line)])"

text \<open>What the generator yields for one data event of the standard output.\<close>

definition yields_of_chunk :: "platform \<Rightarrow> string \<Rightarrow> jsval list" where
  "yields_of_chunk P chunk =
     map (\<lambda>line. parseClaudeOutput P (trim line))
       (filter (\<lambda>line. trim line \<noteq> []) (split_lines chunk))"

definition no_output_message :: string where
  "no_output_message = ''No output from Claude CLI - check model name and authentication''"

definition exit_message :: "int \<Rightarrow> string" where
  "exit_message code = ''Process exited with code '' @ show_int code"

text \<open>The error the \<^verbatim>\<open>catch\<close> block of \<^verbatim>\<open>executeStreaming\<close> throws in place of the one caught.\<close>

definition streaming_error :: "string \<Rightarrow> string \<Rightarrow> string" where
  "streaming_error message errorBuffer =
     ''Claude CLI streaming error: '' @ message
       @ (if errorBuffer \<noteq> [] then ''. Stderr: '' @ errorBuffer else [])"

text \<open>
  The generator: the chunks it yields and how it ends.  After the last data event it
  awaits the exit (\<^verbatim>\<open>waitForExit\<close> rejects on a code other than 0) and then checks
  \<^verbatim>\<open>chunkCount === 0 && buffer.length === 0\<close>, where \<^verbatim>\<open>chunkCount\<close> counts the data
  events.
\<close>

definition executeStreaming :: "platform \<Rightarrow> subprocess \<Rightarrow> jsval list \<times> generator_end" where
  "executeStreaming P proc =
     (concat (map (yields_of_chunk P) (stdout_chunks proc)),
      if exit_code proc \<noteq> 0 then
        Thrown (streaming_error (exit_message (exit_code proc)) (stderr_output proc))
      else if length (stdout_chunks proc) = 0 \<and> length (concat (stdout_chunks proc)) = 0 then
        Thrown (streaming_error no_output_message (stderr_output proc))
      else Returned)"

section \<open>The request handler: \<^verbatim>\<open>ChatHandler\<close>\<close>

text \<open>
  Of a validated request the handler's control flow reads the model, the \<^verbatim>\<open>stream\<close>
  flag and the \<^verbatim>\<open>tools\<close> and \<^verbatim>\<open>functions\<close> values, which validation passes through
  (\<open>Undefined\<close> when the body has none).
\<close>

record chat_request =
  req_model :: string
  req_stream :: bool
  req_tools :: jsval
  req_functions :: jsval

datatype http_response = Json_response nat jsval | Event_stream StreamingResponse

text \<open>
  What surrounds one request: the subprocess it would spawn, when the client goes away
  (before the loop takes the chunk of that index, or never), which calls on the response
  fail, and, for a request that is not streamed, the response the rest of
  \<^verbatim>\<open>handleNonStreamingRequest\<close> and the error handler of \<^verbatim>\<open>handle\<close> arrive at, which is
  not modelled further.
\<close>

record world =
  the_subprocess :: subprocess
  client_gone_at :: "nat option"
  transport_throws :: "nat \<Rightarrow> bool"
  completion_response :: http_response

text \<open>
  The result of handling: whether the Claude CLI was spawned, the error the handler's
  \<^verbatim>\<open>catch\<close> block caught, and the response.  Building the prompt and the options
  from the messages is taken to succeed; the subprocess is spawned when the loop of
  \<^verbatim>\<open>processClaudeStream\<close> first asks the generator for a chunk.
\<close>

record handled =
  spawned :: bool
  caught :: "string option"
  response :: http_response

definition createErrorResponse :: "string \<Rightarrow> string \<Rightarrow> jsval" where
  "createErrorResponse message type =
     Obj [(''error'', Obj [(''message'', Str message), (''type'', Str type), (''code'', Str type)])]"

definition tools_given :: "platform \<Rightarrow> chat_request \<Rightarrow> bool" where
  "tools_given P request =
     ((truthy (req_tools request) \<and> greater_than_zero P (member (req_tools request) ''length''))
      \<or> (truthy (req_functions request)
          \<and> greater_than_zero P (member (req_functions request) ''length'')))"

definition not_supported :: handled where
  "not_supported =
     \<lparr> spawned = False, caught = None,
       response = Json_response 400
         (createErrorResponse ''Tool/function calling is not supported'' ''invalid_request_error'') \<rparr>"

definition stream_feed :: "jsval list \<Rightarrow> nat option \<Rightarrow> feed list" where
  "stream_feed ys gone =
     (case gone of
        None \<Rightarrow> map Yield ys
      | Some n \<Rightarrow> map Yield (take n ys) @ [Client_gone] @ map Yield (drop n ys))"

definition handleStreamingRequest :: "platform \<Rightarrow> chat_request \<Rightarrow> world \<Rightarrow> handled" where
  "handleStreamingRequest P request w =
     (if tools_given P request then not_supported
      else
        (let stream = createStream (transport_throws w) (req_model request);
             claudeStream = executeStreaming P (the_subprocess w);
             (r, l, s) = processClaudeStream P (stream_feed (fst claudeStream) (client_gone_at w))
                           (snd claudeStream) stream;
             s1 = (case r of
                     Inl e \<Rightarrow> if \<not> isClosed s then snd (writeError e s) else s
                   | Inr streamed \<Rightarrow> s);
             s2 = (if \<not> isClosed s1 then end_stream s1 else s1)
         in \<lparr> spawned = True,
              caught = (case r of Inl e \<Rightarrow> Some e | Inr streamed \<Rightarrow> None),
              response = Event_stream s2 \<rparr>))"

definition handleNonStreamingRequest :: "platform \<Rightarrow> chat_request \<Rightarrow> world \<Rightarrow> handled" where
  "handleNonStreamingRequest P request w =
     (if tools_given P request then not_supported
      else \<lparr> spawned = True, caught = None, response = completion_response w \<rparr>)"

definition handle :: "platform \<Rightarrow> chat_request \<Rightarrow> world \<Rightarrow> handled" where
  "handle P request w =
     (if req_stream request then handleStreamingRequest P request w
      else handleNonStreamingRequest P request w)"

fun frames_sent :: "http_response \<Rightarrow> frame list" where
  "frames_sent (Event_stream s) = res_frames s"
| "frames_sent (Json_response status body) = []"

section \<open>Concrete inputs\<close>

text \<open>
  A platform for the runs evaluated below, none of which parses JSON, converts a number
  or generates an identifier; the only values serialized are the empty object and the
  input of scenario C.
\<close>

definition test_platform :: platform where
  "test_platform =
     \<lparr> JSON_parse = (\<lambda>s. None),
       JSON_stringify =
         (\<lambda>v. if v = Obj [(''city'', Str ''Paris'')] then ''{\"city\":\"Paris\"}'' else ''{}''),
       Number_toString = (\<lambda>n. ''0''), String_toNumber = (\<lambda>s. None),
       generate_call_id = (\<lambda>i. ''call_0'') \<rparr>"

text \<open>Scenario A of the specification: one assistant envelope with the text \<^verbatim>\<open>Hi\<close>.\<close>

definition hi_envelope :: jsval where
  "hi_envelope =
     Obj [(''type'', Str ''assistant''),
          (''message'', Obj [(''content'', Arr [Obj [(''type'', Str ''text''), (''text'', Str ''Hi'')]])])]"

text \<open>A text chunk of one blank: the role is sent for it, and nothing else.\<close>

definition blank_text :: jsval where
  "blank_text = Obj [(''type'', Str ''text''), (''content'', Str '' '')]"

text \<open>Scenario C of the specification: a tool-use block inside an assistant message.\<close>

definition weather_envelope :: jsval where
  "weather_envelope =
     Obj [(''type'', Str ''assistant''),
          (''message'',
             Obj [(''content'',
                Arr [Obj [(''type'', Str ''text''), (''text'', Str ''Let me check.'')],
                     Obj [(''type'', Str ''tool_use''), (''id'', Str ''t1''),
                          (''name'', Str ''get_weather''),
                          (''input'', Obj [(''city'', Str ''Paris'')])]])])]"

definition quiet_world :: "subprocess \<Rightarrow> world" where
  "quiet_world proc =
     \<lparr> the_subprocess = proc, client_gone_at = None, transport_throws = (\<lambda>n. False),
       completion_response = Json_response 200 (Obj []) \<rparr>"

definition plain_request :: "bool \<Rightarrow> jsval \<Rightarrow> chat_request" where
  "plain_request streaming tools =
     \<lparr> req_model = ''m'', req_stream = streaming, req_tools = tools, req_functions = Undefined \<rparr>"

text \<open>The locals and the session at the end of scenario A, on a transport that never fails.\<close>

definition hi_locals :: locals where
  "hi_locals =
     \<lparr> roleSent = True, contentSent = True, assistantContent = ''Hi'', chunkCount = 1,
       callbackCalls = [''Hi''],
       writeChunkCalls = [(Role_delta, None), (Content_delta ''Hi'', None), (Empty_delta, Some ''stop'')] \<rparr>"

definition hi_session :: StreamingResponse where
  "hi_session =
     \<lparr> closed = False, sentData = True, request_model = ''m'',
       res_frames = [Data (Chunk_payload ''m'' Role_delta None),
                     Data (Chunk_payload ''m'' (Content_delta ''Hi'') None),
                     Data (Chunk_payload ''m'' Empty_delta (Some ''stop''))],
       res_ended = False, res_calls = 3, res_throws = (\<lambda>n. False) \<rparr>"

text \<open>The locals and the session when the loop has consumed the blank text chunk.\<close>

definition blank_locals :: locals where
  "blank_locals =
     \<lparr> roleSent = True, contentSent = False, assistantContent = [], chunkCount = 1,
       callbackCalls = [], writeChunkCalls = [(Role_delta, None)] \<rparr>"

definition blank_session :: StreamingResponse where
  "blank_session =
     \<lparr> closed = False, sentData = True, request_model = ''m'',
       res_frames = [Data (Chunk_payload ''m'' Role_delta None)],
       res_ended = False, res_calls = 1, res_throws = (\<lambda>n. False) \<rparr>"

text \<open>Two subprocesses that write nothing: one exits with code 2, one with code 0.\<close>

definition silent_failure :: subprocess where
  "silent_failure = \<lparr> stdout_chunks = [], stderr_output = [], exit_code = 2 \<rparr>"

definition silent_success :: subprocess where
  "silent_success = \<lparr> stdout_chunks = [], stderr_output = [], exit_code = 0 \<rparr>"

section \<open>Evaluating the concrete inputs\<close>

lemma filterContent_Hi: "filterContent ''Hi'' = ''Hi''"
  by (simp add: filterContent_def trim_def is_space_def newline_def blank_run_def)

lemma parse_hi_envelope: "parseClaudeChunk test_platform hi_envelope = Assistant_message (Str ''Hi'')"
  by (simp add: hi_envelope_def parseClaudeChunk_def normalizeClaudeChunk_def
      assistant_envelope_def Let_def is_tool_use_def extractContent_def block_text_def)

lemma parse_blank_text: "parseClaudeChunk test_platform blank_text = Assistant_message (Str '' '')"
  by (simp add: blank_text_def parseClaudeChunk_def normalizeClaudeChunk_def
      assistant_envelope_def has_tool_calls_def Let_def)

lemma hi_run:
  "processClaudeStream test_platform [Yield hi_envelope] Returned (createStream (\<lambda>n. False) ''m'')
     = (Inr ''Hi'', hi_locals, hi_session)"
  by (simp add: processClaudeStream_def parse_hi_envelope filterContent_Hi initial_locals_def
      createStream_def isClosed_def Let_def send_role_def send_content_def call_writeChunk_def
      writeChunk_def write_sse_def res_write_def after_loop_def fallback_or_role_def
      final_chunk_def trim_def is_space_def hi_locals_def hi_session_def)

lemma blank_loop:
  "chunk_loop test_platform [Yield blank_text] Returned
       (initial_locals, createStream (\<lambda>n. False) ''m'')
     = (Inr (), blank_locals, blank_session)"
  by (simp add: parse_blank_text initial_locals_def
      createStream_def isClosed_def Let_def send_role_def call_writeChunk_def
      writeChunk_def write_sse_def res_write_def trim_def is_space_def
      blank_locals_def blank_session_def)

section \<open>Properties of the SSE session\<close>

lemma write_sse_closed: "closed s \<Longrightarrow> write_sse d s = (False, s)"
  by (simp add: write_sse_def)

lemma session_step_closed: "closed s \<Longrightarrow> session_step x s = s"
  by (cases x) (simp_all add: write_sse_def writeChunk_def writeError_def end_stream_def
      on_close_def on_error_def)

lemma session_run_closed: "closed s \<Longrightarrow> session_run xs s = s"
  by (induction xs arbitrary: s) (simp_all add: session_step_closed)

lemma session_run_frames_closed: "closed s \<Longrightarrow> res_frames (session_run xs s) = res_frames s"
  by (simp add: session_run_closed)

text \<open>
  Claim C9.  Once the session is closed: \<^verbatim>\<open>write\<close> (and \<^verbatim>\<open>writeChunk\<close>, \<^verbatim>\<open>writeError\<close>,
  which go through it) returns false and leaves the session and the transport as they
  were; it cannot throw, since the model of \<^verbatim>\<open>write\<close> has no exceptional result (the
  source catches what \<^verbatim>\<open>res.write\<close> throws).  \<^verbatim>\<open>end\<close> changes nothing, once or twice.
  Whatever is then done to the session, in any order and number, \<open>closed\<close> stays true and
  no frame reaches the transport.
\<close>

theorem closed_session_is_terminal:
  "closed s \<Longrightarrow>
     write_sse d s = (False, s)
   \<and> writeChunk dl fr s = (False, s)
   \<and> writeError m s = (False, s)
   \<and> end_stream s = s
   \<and> end_stream (end_stream s) = s
   \<and> closed (session_run ops s)
   \<and> res_frames (session_run ops s) = res_frames s"
  by (simp add: write_sse_def writeChunk_def writeError_def end_stream_def
      session_run_closed)

theorem closed_session_is_terminal_witness:
  "closed (on_close (createStream (\<lambda>n. False) ''m''))
   \<and> write_sse (Error_payload ''e'' ''t'' ''c'') (on_close (createStream (\<lambda>n. False) ''m''))
       = (False, on_close (createStream (\<lambda>n. False) ''m''))
   \<and> end_stream (on_close (createStream (\<lambda>n. False) ''m''))
       = on_close (createStream (\<lambda>n. False) ''m'')
   \<and> res_frames (session_run [Op_writeChunk Role_delta None, Op_end]
         (on_close (createStream (\<lambda>n. False) ''m''))) = []"
proof -
  have c: "closed (on_close (createStream (\<lambda>n. False) ''m''))"
    by (simp add: on_close_def createStream_def)
  show ?thesis
    using c closed_session_is_terminal[OF c, of "Error_payload ''e'' ''t'' ''c''" Role_delta None "[]"
        "[Op_writeChunk Role_delta None, Op_end]"]
    by (simp add: on_close_def createStream_def)
qed

section \<open>Properties of the output normalizer\<close>

lemma extract_loop_concat:
  "extract_loop P acc blocks = acc @ concat (map (block_text P) blocks)"
  by (induction blocks arbitrary: acc) simp_all

text \<open>
  Claim C7: the streaming extractor takes the \<^verbatim>\<open>content\<close> of a block with recursive
  extraction applied when that content is itself a block list.  The code does not: it
  appends \<^verbatim>\<open>block.content\<close> as it is, so that a list is converted to a string, its
  elements joined by commas.  For the block list \<^verbatim>\<open>[{content: ["a", "b"]}]\<close> the
  extractor returns \<^verbatim>\<open>a,b\<close>, where extraction applied to \<^verbatim>\<open>["a", "b"]\<close> returns
  \<^verbatim>\<open>ab\<close>.  (\<^verbatim>\<open>MessageAdapter.extractContent\<close>, the same loop on the non-streaming path,
  does call itself on \<^verbatim>\<open>block.content\<close>.)
\<close>

theorem extractContent_not_recursive:
  "extractContent test_platform (Arr [Obj [(''content'', Arr [Str ''a'', Str ''b''])]]) = ''a,b''
   \<and> extractContent test_platform (Arr [Str ''a'', Str ''b'']) = ''ab''"
  by (simp add: extractContent_def block_text_def)

text \<open>
  What the streaming extractor computes for a block list: the concatenation, in order,
  of what each block contributes.  A bare string contributes itself; an object its
  \<^verbatim>\<open>text\<close> when that is a non-empty string, otherwise its \<^verbatim>\<open>content\<close> when that is a
  string, and when its \<^verbatim>\<open>content\<close> is a list the string conversion of that list (its
  elements converted and joined by commas, with no extraction inside), and nothing when
  neither field is truthy; null, numbers and booleans contribute nothing.
\<close>

lemma extractContent_concatenates_blocks:
  "extractContent P (Arr blocks) = concat (map (block_text P) blocks)
   \<and> block_text P (Str s) = s
   \<and> (member (Obj kt) ''text'' = Str t \<and> t \<noteq> [] \<longrightarrow> block_text P (Obj kt) = t)
   \<and> (\<not> truthy (member (Obj kc) ''text'') \<and> member (Obj kc) ''content'' = Str c
        \<longrightarrow> block_text P (Obj kc) = c)
   \<and> (\<not> truthy (member (Obj ka) ''text'') \<and> member (Obj ka) ''content'' = Arr xs
        \<longrightarrow> block_text P (Obj ka) = join '','' (map (\<lambda>x. if nullish x then [] else ToString P x) xs))
   \<and> (\<not> truthy (member (Obj kn) ''text'') \<and> \<not> truthy (member (Obj kn) ''content'')
        \<longrightarrow> block_text P (Obj kn) = [])
   \<and> block_text P Null = [] \<and> block_text P (Num n) = [] \<and> block_text P (Bool b) = []"
  by (auto simp: extractContent_def extract_loop_concat block_text_def)

lemma extractContent_concatenates_blocks_example:
  "extractContent test_platform
     (Arr [Str ''x'', Obj [(''type'', Str ''text''), (''text'', Str ''Hi'')],
           Obj [(''content'', Str ''c'')], Obj [(''content'', Arr [Str ''a'', Str ''b''])],
           Obj [(''type'', Str ''tool_use'')], Null]) = ''xHica,b''"
  using extractContent_concatenates_blocks[of test_platform
      "[Str ''x'', Obj [(''type'', Str ''text''), (''text'', Str ''Hi'')],
        Obj [(''content'', Str ''c'')], Obj [(''content'', Arr [Str ''a'', Str ''b''])],
        Obj [(''type'', Str ''tool_use'')], Null]"
      "''x''" "[(''type'', Str ''text''), (''text'', Str ''Hi'')]" "''Hi''"
      "[(''content'', Str ''c'')]" "''c''"
      "[(''content'', Arr [Str ''a'', Str ''b''])]" "[Str ''a'', Str ''b'']"
      "[(''type'', Str ''tool_use'')]"]
  by simp

lemma filter_tool_use_ok:
  "\<forall>b \<in> set blocks. \<not> nullish b \<Longrightarrow> filter_tool_use blocks = Inr (filter is_tool_use blocks)"
  by (induction blocks) auto

lemma length_tool_calls_of [simp]: "length (tool_calls_of P bs) = length bs"
  by (simp add: tool_calls_of_def)

text \<open>
  Claim C8.  An envelope of type \<^verbatim>\<open>assistant\<close> whose message content is a list of
  blocks (none of them null) with at least one \<^verbatim>\<open>tool_use\<close> block is normalized to a
  tool-calls chunk, not to assistant text, holding for each \<^verbatim>\<open>tool_use\<close> block, in order,
  the object with \<^verbatim>\<open>id\<close> the block's id or else a generated one, \<^verbatim>\<open>type\<close>
  \<^verbatim>\<open>function\<close>, and \<^verbatim>\<open>function\<close> made of the block's name and the JSON serialization of
  its input, or of the empty object in its place.
\<close>

theorem assistant_envelope_tool_calls:
  assumes "member chunk ''type'' = Str ''assistant''"
    and "truthy (member chunk ''message'')"
    and "member (member chunk ''message'') ''content'' = Arr blocks"
    and "\<forall>b \<in> set blocks. \<not> nullish b"
    and "\<exists>b \<in> set blocks. is_tool_use b"
  shows "parseClaudeChunk P chunk =
           Tool_calls (Arr (map (\<lambda>(i, block).
              Obj [(''id'', if truthy (member block ''id'') then member block ''id''
                            else Str (generate_call_id P i)),
                   (''type'', Str ''function''),
                   (''function'',
                      Obj [(''name'', member block ''name''),
                           (''arguments'',
                              Str (JSON_stringify P
                                (if truthy (member block ''input'') then member block ''input''
                                 else Obj [])))])])
              (enumerate 0 (filter is_tool_use blocks))))"
proof -
  have nn: "\<not> nullish chunk" and ob: "typeof_object chunk"
    using assms(1) by (cases chunk; auto split: if_splits)+
  have f: "filter_tool_use blocks = Inr (filter is_tool_use blocks)"
    using filter_tool_use_ok[OF assms(4)] .
  have ne: "filter is_tool_use blocks \<noteq> []"
    using assms(5) by (auto simp: filter_empty_conv)
  have ptc: "parseToolCalls P (Obj [(''content'', Arr blocks)])
               = Inr (Tool_calls (Arr (tool_calls_of P (filter is_tool_use blocks))))"
    using f ne by (simp add: parseToolCalls_def greater_than_zero_def)
  have "normalizeClaudeChunk P chunk
          = Inr (Tool_calls (Arr (tool_calls_of P (filter is_tool_use blocks))))"
    using nn assms(1,2,3) f ne ptc
    by (simp add: normalizeClaudeChunk_def assistant_envelope_def Let_def)
  then show ?thesis
    using ob by (simp add: parseClaudeChunk_def tool_calls_of_def tool_call_def or_else_def)
qed

theorem assistant_envelope_tool_calls_witness:
  "member weather_envelope ''type'' = Str ''assistant''
   \<and> truthy (member weather_envelope ''message'')
   \<and> parseClaudeChunk test_platform weather_envelope =
       Tool_calls (Arr [Obj [(''id'', Str ''t1''), (''type'', Str ''function''),
                             (''function'', Obj [(''name'', Str ''get_weather''),
                                                 (''arguments'', Str ''{\"city\":\"Paris\"}'')])]])"
proof -
  let ?blocks = "[Obj [(''type'', Str ''text''), (''text'', Str ''Let me check.'')],
                  Obj [(''type'', Str ''tool_use''), (''id'', Str ''t1''),
                       (''name'', Str ''get_weather''),
                       (''input'', Obj [(''city'', Str ''Paris'')])]]"
  have 1: "member weather_envelope ''type'' = Str ''assistant''"
    and 2: "truthy (member weather_envelope ''message'')"
    and 3: "member (member weather_envelope ''message'') ''content'' = Arr ?blocks"
    by (simp_all add: weather_envelope_def)
  have 4: "\<forall>b \<in> set ?blocks. \<not> nullish b" by simp
  have 5: "\<exists>b \<in> set ?blocks. is_tool_use b" by (simp add: is_tool_use_def)
  show ?thesis
    using 1 2 assistant_envelope_tool_calls[OF 1 2 3 4 5, of test_platform]
    by (simp add: is_tool_use_def test_platform_def)
qed

section \<open>Properties of the translation state machine\<close>

lemma closed_writeChunk [simp]:
  "closed (snd (writeChunk d fr s)) = (closed s \<or> res_throws s (res_calls s))"
  by (simp add: writeChunk_def write_sse_def res_write_def)

lemma frames_writeChunk [simp]:
  "res_frames (snd (writeChunk d fr s)) =
     (if closed s \<or> res_throws s (res_calls s) then res_frames s
      else res_frames s @ [Data (Chunk_payload (request_model s) d fr)])"
  by (simp add: writeChunk_def write_sse_def res_write_def)

lemma model_writeChunk [simp]: "request_model (snd (writeChunk d fr s)) = request_model s"
  by (simp add: writeChunk_def write_sse_def res_write_def)

lemma frames_writeError [simp]:
  "res_frames (snd (writeError e s)) =
     (if closed s \<or> res_throws s (res_calls s) then res_frames s
      else res_frames s @ [Data (Error_payload e ''streaming_error'' ''error'')])"
  by (simp add: writeError_def write_sse_def res_write_def)

subsection \<open>The link between the calls and the transport\<close>

lemma wire_call:
  "wire_inv m st \<Longrightarrow> wire_inv m (call_writeChunk d fr st)"
  by (auto simp: wire_inv_def call_writeChunk_def frame_of_def)

lemma wire_locals:
  "wire_inv m (l, s) \<Longrightarrow> writeChunkCalls l' = writeChunkCalls l \<Longrightarrow> wire_inv m (l', s)"
  by (simp add: wire_inv_def)

lemma wire_send_role: "wire_inv m st \<Longrightarrow> wire_inv m (send_role st)"
  using wire_call[of m st Role_delta None]
  by (auto simp: send_role_def wire_inv_def split: prod.splits)

lemma wire_send_content: "wire_inv m st \<Longrightarrow> wire_inv m (send_content c st)"
  using wire_call[of m st "Content_delta c" None]
  by (auto simp: send_content_def wire_inv_def split: prod.splits)

lemma wire_process_chunk:
  assumes "wire_inv m st" and "process_chunk pc st = (r, st')"
  shows "wire_inv m st'"
proof (cases pc)
  case (Assistant_message content)
  then show ?thesis
    using assms(2) wire_send_role[OF assms(1)] wire_send_content[OF wire_send_role[OF assms(1)]]
    by (cases content) (auto simp: Let_def split: if_splits)
next
  case (Tool_calls t)
  then show ?thesis
    using assms(2) wire_send_role[OF assms(1)]
      wire_call[OF wire_send_role[OF assms(1)], of "Tool_calls_delta t" None]
    by (auto simp: Let_def wire_inv_def split: if_splits prod.splits)
qed (use assms in auto)

lemma wire_chunk_loop:
  "wire_inv m st \<Longrightarrow> chunk_loop P feeds g st = (r, st') \<Longrightarrow> wire_inv m st'"
proof (induction P feeds g st rule: chunk_loop.induct)
  case (3 P rest g st)
  have "wire_inv m (fst st, on_close (snd st))"
    using 3(2) by (simp add: wire_inv_def on_close_def)
  then show ?case using 3 by simp
next
  case (4 P chunk rest g st)
  let ?l = "(fst st)\<lparr>chunkCount := Suc (chunkCount (fst st))\<rparr>"
  have i: "wire_inv m (?l, snd st)" using 4(2) by (simp add: wire_inv_def)
  show ?case
  proof (cases "isClosed (snd st)")
    case True
    then show ?thesis using 4(3) i by (auto simp: Let_def)
  next
    case False
    obtain r1 st1 where p: "process_chunk (parseClaudeChunk P chunk) (?l, snd st) = (r1, st1)"
      by (cases "process_chunk (parseClaudeChunk P chunk) (?l, snd st)")
    have i1: "wire_inv m st1" using wire_process_chunk[OF i p] .
    show ?thesis
    proof (cases r1)
      case (Inl e)
      then show ?thesis using 4(3) False p i1 by (auto simp: Let_def)
    next
      case (Inr u)
      then show ?thesis using 4(1)[OF refl False _ _ i1] 4(3) False p by (auto simp: Let_def)
    qed
  qed
qed auto

lemma wire_initial: "wire_inv m (initial_locals, createStream throws m)"
  by (simp add: wire_inv_def initial_locals_def createStream_def)

lemma wire_fallback_or_role: "wire_inv m st \<Longrightarrow> wire_inv m (fallback_or_role st)"
  using wire_call[of m st Role_delta None] wire_call[of m st "Content_delta fallbackMessage" None]
  by (auto simp: fallback_or_role_def wire_inv_def split: prod.splits)

lemma wire_final_chunk: "wire_inv m st \<Longrightarrow> wire_inv m (final_chunk st)"
  using wire_call[of m st Empty_delta "Some ''stop''"]
  by (auto simp: final_chunk_def)

subsection \<open>What holds of the calls\<close>

lemma calls_send_role:
  "calls_inv (fst st) \<Longrightarrow> 0 < chunkCount (fst st) \<Longrightarrow> calls_inv (fst (send_role st))"
  by (auto simp: calls_inv_def send_role_def call_writeChunk_def called_content_def
      terminal_call_def split: prod.splits)

lemma send_role_facts [simp]:
  "roleSent (fst (send_role st))"
  "chunkCount (fst (send_role st)) = chunkCount (fst st)"
  "contentSent (fst (send_role st)) = contentSent (fst st)"
  "assistantContent (fst (send_role st)) = assistantContent (fst st)"
  by (auto simp: send_role_def call_writeChunk_def split: prod.splits)

lemma calls_send_content:
  "calls_inv (fst st) \<Longrightarrow> roleSent (fst st) \<Longrightarrow> calls_inv (fst (send_content c st))"
  apply (cases "writeChunkCalls (fst st)")
  by (auto simp: calls_inv_def send_content_def call_writeChunk_def called_content_def
      terminal_call_def split: prod.splits)

lemma calls_tool_calls:
  "calls_inv (fst st) \<Longrightarrow> roleSent (fst st) \<Longrightarrow>
     calls_inv ((fst (call_writeChunk (Tool_calls_delta t) None st))\<lparr>contentSent := True\<rparr>)"
  apply (cases "writeChunkCalls (fst st)")
  by (auto simp: calls_inv_def call_writeChunk_def called_content_def terminal_call_def)

lemma calls_process_chunk:
  assumes "calls_inv (fst st)" and "0 < chunkCount (fst st)" and "process_chunk pc st = (r, st')"
  shows "calls_inv (fst st')"
proof -
  have i1: "calls_inv (fst (send_role st))" using calls_send_role[OF assms(1,2)] .
  have r1: "roleSent (fst (send_role st))" by simp
  show ?thesis
  proof (cases pc)
    case (Assistant_message content)
    then show ?thesis
      using assms(3) i1 calls_send_content[OF i1 r1]
      by (cases content) (auto simp: Let_def split: if_splits)
  next
    case (Tool_calls t)
    then show ?thesis
      using assms(3) i1 calls_tool_calls[OF i1 r1, of t]
      by (auto simp: Let_def split: if_splits prod.splits)
  qed (use assms in auto)
qed

lemma calls_chunk_loop:
  "calls_inv (fst st) \<Longrightarrow> chunk_loop P feeds g st = (r, st') \<Longrightarrow> calls_inv (fst st')"
proof (induction P feeds g st rule: chunk_loop.induct)
  case (4 P chunk rest g st)
  let ?l = "(fst st)\<lparr>chunkCount := Suc (chunkCount (fst st))\<rparr>"
  have i: "calls_inv ?l" using 4(2) by (simp add: calls_inv_def)
  show ?case
  proof (cases "isClosed (snd st)")
    case True
    then show ?thesis using 4(3) i by (auto simp: Let_def)
  next
    case False
    obtain r1 st1 where p: "process_chunk (parseClaudeChunk P chunk) (?l, snd st) = (r1, st1)"
      by (cases "process_chunk (parseClaudeChunk P chunk) (?l, snd st)")
    have i1: "calls_inv (fst st1)" using calls_process_chunk[OF _ _ p] i by simp
    show ?thesis
    proof (cases r1)
      case (Inl e)
      then show ?thesis using 4(3) False p i1 by (auto simp: Let_def)
    next
      case (Inr u)
      then show ?thesis using 4(1)[OF refl False _ _ i1] 4(3) False p by (auto simp: Let_def)
    qed
  qed
qed auto

lemma calls_initial: "calls_inv initial_locals"
  by (simp add: calls_inv_def initial_locals_def called_content_def)

subsection \<open>After the loop\<close>

lemma after_loop_Inr:
  assumes "after_loop st = (Inr ret, l', s')"
  shows "0 < chunkCount (fst st)"
    and "writeChunkCalls l' = writeChunkCalls (fst st) @ late_calls (fst st) @ [terminal_call]"
    and "ret = assistantContent l'"
    and "assistantContent l' =
           (if roleSent (fst st) \<and> \<not> contentSent (fst st) then fallbackMessage
            else assistantContent (fst st))"
    and "callbackCalls l' =
           (if roleSent (fst st) \<and> \<not> contentSent (fst st)
            then callbackCalls (fst st) @ [fallbackMessage] else callbackCalls (fst st))"
    and "(l', s') = final_chunk (fallback_or_role st)"
  using assms
  by (auto simp: after_loop_def Let_def final_chunk_def fallback_or_role_def call_writeChunk_def
      late_calls_def terminal_call_def split: if_splits prod.splits)

lemma after_loop_Inl:
  assumes "after_loop st = (Inl e, st')"
  shows "st' = st \<and> e = no_response_message \<and> chunkCount (fst st) = 0"
  using assms by (auto simp: after_loop_def Let_def split: if_splits)

lemma wire_after_loop: "wire_inv m st \<Longrightarrow> after_loop st = (r, st') \<Longrightarrow> wire_inv m st'"
  using wire_final_chunk[OF wire_fallback_or_role, of m st]
  by (auto simp: after_loop_def Let_def split: if_splits)

lemma shape_of_inv: "calls_inv l \<Longrightarrow> calls_shape (writeChunkCalls l)"
  by (auto simp: calls_inv_def calls_shape_def)

lemma shape_after_loop:
  assumes "calls_inv (fst st)" and "after_loop st = (r, l', s')"
  shows "calls_shape (writeChunkCalls l')"
proof (cases r)
  case (Inl e)
  then show ?thesis using after_loop_Inl[of st e "(l', s')"] assms shape_of_inv by auto
next
  case (Inr ret)
  have c: "writeChunkCalls l' = writeChunkCalls (fst st) @ late_calls (fst st) @ [terminal_call]"
    using after_loop_Inr(2)[of st ret l' s'] assms(2) Inr by simp
  show ?thesis
    using assms(1) unfolding c
    by (cases "writeChunkCalls (fst st)")
       (auto simp: calls_inv_def calls_shape_def late_calls_def terminal_call_def)
qed

lemma role_shape_prefix:
  assumes "calls_shape cs" and "prefix w (map (frame_of m) cs)"
  shows "role_shape w"
proof -
  obtain n where w: "w = take n (map (frame_of m) cs)"
    using assms(2) by (metis prefix_def append_eq_conv_conj)
  show ?thesis
  proof (cases cs)
    case Nil
    then show ?thesis using w by (simp add: role_shape_def)
  next
    case (Cons c rest)
    show ?thesis
    proof (cases n)
      case 0
      then show ?thesis using w by (simp add: role_shape_def)
    next
      case (Suc k)
      have "\<forall>f \<in> set (map (frame_of m) rest). \<not> is_role_frame f"
        using assms(1) Cons
        by (force simp: calls_shape_def is_role_frame_def frame_of_def)
      then have "\<forall>f \<in> set (take k (map (frame_of m) rest)). \<not> is_role_frame f"
        by (meson in_set_takeD)
      then show ?thesis
        using assms(1) Cons Suc w
        by (auto simp: calls_shape_def role_shape_def is_role_frame_def frame_of_def)
    qed
  qed
qed

text \<open>A role first and only once, for calls and for frames alike.\<close>

lemma first_and_once:
  fixes xs :: "'a list"
  assumes "xs \<noteq> [] \<longrightarrow> R (hd xs) \<and> (\<forall>x \<in> set (tl xs). \<not> R x)"
    and "\<forall>x \<in> set e. \<not> R x \<and> \<not> C x" and "\<forall>x. R x \<longrightarrow> \<not> C x"
  shows "(\<forall>i < length (xs @ e). C ((xs @ e) ! i) \<longrightarrow> (\<exists>j < i. R ((xs @ e) ! j)))
       \<and> length (filter R (xs @ e)) \<le> 1"
proof (cases xs)
  case Nil
  have "filter R e = []" using assms(2) by (simp add: filter_empty_conv)
  then show ?thesis using Nil assms(2) by (auto simp: all_set_conv_all_nth)
next
  case (Cons r rest)
  then have r: "R r" and nr: "\<forall>x \<in> set rest. \<not> R x"
    using assms(1) by auto
  have f0: "filter R (rest @ e) = []"
    using nr assms(2) by (auto simp: filter_empty_conv)
  have "\<And>i. i < length (xs @ e) \<Longrightarrow> C ((xs @ e) ! i) \<Longrightarrow> (\<exists>j < i. R ((xs @ e) ! j))"
  proof -
    fix i assume i: "i < length (xs @ e)" and p: "C ((xs @ e) ! i)"
    have "i \<noteq> 0" using p r assms(3) Cons by (cases i) auto
    then have "0 < i" by simp
    moreover have "R ((xs @ e) ! 0)" using r Cons by simp
    ultimately show "\<exists>j < i. R ((xs @ e) ! j)" by blast
  qed
  moreover have "length (filter R (xs @ e)) \<le> 1"
    using f0 r Cons by simp
  ultimately show ?thesis by blast
qed

lemma role_excl: "is_role_delta d \<Longrightarrow> \<not> is_content_delta d \<and> \<not> is_tool_calls_delta d"
  by (cases d) auto

lemma process_outcome:
  assumes "processClaudeStream P claudeStream g stream = (r, l, s)"
  obtains r0 l0 s0 r1 s1 where
    "chunk_loop P claudeStream g (initial_locals, stream) = (r0, l0, s0)"
    and "(case r0 of Inl e \<Rightarrow> (Inl e, l0, s0) | Inr u \<Rightarrow> after_loop (l0, s0)) = (r1, l, s1)"
    and "r = r1"
    and "s = (case r1 of Inl e \<Rightarrow> if \<not> isClosed s1 then snd (writeError e s1) else s1 | Inr t \<Rightarrow> s1)"
proof -
  obtain r0 l0 s0 where cl: "chunk_loop P claudeStream g (initial_locals, stream) = (r0, l0, s0)"
    by (cases "chunk_loop P claudeStream g (initial_locals, stream)")
  obtain r1 l1 s1 where mid:
    "(case r0 of Inl e \<Rightarrow> (Inl e, l0, s0) | Inr u \<Rightarrow> after_loop (l0, s0)) = (r1, l1, s1)"
    by (cases "(case r0 of Inl e \<Rightarrow> (Inl e, l0, s0) | Inr u \<Rightarrow> after_loop (l0, s0))")
  have "r = r1 \<and> l = l1
      \<and> s = (case r1 of Inl e \<Rightarrow> if \<not> isClosed s1 then snd (writeError e s1) else s1 | Inr t \<Rightarrow> s1)"
    using assms cl mid by (cases r0; cases r1) (auto simp: processClaudeStream_def)
  then show ?thesis using that cl mid by simp
qed

text \<open>
  Claim C1.  Whatever the generator yields, however it ends, whenever the client goes away
  and whichever calls on the transport fail: among the frames on the transport, and
  likewise among the calls of \<^verbatim>\<open>writeChunk\<close>, every content delta and every tool-call
  delta comes after a role-announcement delta, and there is at most one role-announcement
  delta.
\<close>

theorem role_delta_first_and_once:
  assumes "processClaudeStream P claudeStream g (createStream throws m) = (r, l, s)"
  shows "(\<forall>i < length (res_frames s).
            is_content_frame (res_frames s ! i) \<or> is_tool_calls_frame (res_frames s ! i)
            \<longrightarrow> (\<exists>j < i. is_role_frame (res_frames s ! j)))
       \<and> length (filter is_role_frame (res_frames s)) \<le> 1
       \<and> (\<forall>i < length (writeChunkCalls l).
            is_content_delta (fst (writeChunkCalls l ! i)) \<or> is_tool_calls_delta (fst (writeChunkCalls l ! i))
            \<longrightarrow> (\<exists>j < i. is_role_delta (fst (writeChunkCalls l ! j))))
       \<and> length (filter (\<lambda>c. is_role_delta (fst c)) (writeChunkCalls l)) \<le> 1"
proof -
  obtain r0 l0 s0 r1 s1 where
    cl: "chunk_loop P claudeStream g (initial_locals, createStream throws m) = (r0, l0, s0)"
    and mid: "(case r0 of Inl e \<Rightarrow> (Inl e, l0, s0) | Inr u \<Rightarrow> after_loop (l0, s0)) = (r1, l, s1)"
    and s: "s = (case r1 of Inl e \<Rightarrow> if \<not> isClosed s1 then snd (writeError e s1) else s1 | Inr t \<Rightarrow> s1)"
    using process_outcome[OF assms] by metis
  have c0: "calls_inv l0" using calls_chunk_loop[OF _ cl] calls_initial by simp
  have w0: "wire_inv m (l0, s0)" using wire_chunk_loop[OF wire_initial cl] .
  have sh: "calls_shape (writeChunkCalls l)"
    using mid c0 shape_of_inv shape_after_loop[of "(l0, s0)"] by (cases r0) auto
  have w1: "wire_inv m (l, s1)"
    using mid w0 wire_after_loop[of m "(l0, s0)"] by (cases r0) auto
  have rs: "role_shape (res_frames s1)"
    using role_shape_prefix[OF sh, of "res_frames s1" m] w1 by (simp add: wire_inv_def)
  obtain e where e: "res_frames s = res_frames s1 @ e"
    and ne: "\<forall>f \<in> set e. \<not> is_role_frame f \<and> \<not> (is_content_frame f \<or> is_tool_calls_frame f)"
  proof (cases r1)
    case (Inl msg)
    then have "res_frames s = res_frames s1 @ []
        \<or> res_frames s = res_frames s1 @ [Data (Error_payload msg ''streaming_error'' ''error'')]"
      using s by (auto simp: isClosed_def)
    then show ?thesis
      using that[of "[]"] that[of "[Data (Error_payload msg ''streaming_error'' ''error'')]"]
      by (auto simp: is_role_frame_def is_content_frame_def is_tool_calls_frame_def)
  next
    case (Inr t)
    then show ?thesis using s that[of "[]"] by simp
  qed
  have excl: "\<forall>f. is_role_frame f \<longrightarrow> \<not> (is_content_frame f \<or> is_tool_calls_frame f)"
    using role_excl
    by (auto simp: is_role_frame_def is_content_frame_def is_tool_calls_frame_def
        split: option.splits)
  have wire: "(\<forall>i < length (res_frames s).
            is_content_frame (res_frames s ! i) \<or> is_tool_calls_frame (res_frames s ! i)
            \<longrightarrow> (\<exists>j < i. is_role_frame (res_frames s ! j)))
       \<and> length (filter is_role_frame (res_frames s)) \<le> 1"
    using first_and_once[of "res_frames s1" is_role_frame e
        "\<lambda>f. is_content_frame f \<or> is_tool_calls_frame f"] rs ne excl
    unfolding e role_shape_def by blast
  have excl2: "\<forall>c::delta \<times> string option. is_role_delta (fst c)
        \<longrightarrow> \<not> (is_content_delta (fst c) \<or> is_tool_calls_delta (fst c))"
    using role_excl by blast
  have calls: "(\<forall>i < length (writeChunkCalls l).
            is_content_delta (fst (writeChunkCalls l ! i)) \<or> is_tool_calls_delta (fst (writeChunkCalls l ! i))
            \<longrightarrow> (\<exists>j < i. is_role_delta (fst (writeChunkCalls l ! j))))
       \<and> length (filter (\<lambda>c. is_role_delta (fst c)) (writeChunkCalls l)) \<le> 1"
    using first_and_once[of "writeChunkCalls l" "\<lambda>c. is_role_delta (fst c)" "[]"
        "\<lambda>c. is_content_delta (fst c) \<or> is_tool_calls_delta (fst c)"] sh excl2
    unfolding calls_shape_def by simp
  show ?thesis using wire calls by blast
qed

theorem role_delta_first_and_once_witness:
  "processClaudeStream test_platform [Yield hi_envelope] Returned (createStream (\<lambda>n. False) ''m'')
     = (Inr ''Hi'', hi_locals, hi_session)
   \<and> is_content_frame (res_frames hi_session ! 1)
   \<and> is_role_frame (res_frames hi_session ! 0)
   \<and> length (filter is_role_frame (res_frames hi_session)) \<le> 1
   \<and> length (filter (\<lambda>c. is_role_delta (fst c)) (writeChunkCalls hi_locals)) \<le> 1"
proof -
  note t = role_delta_first_and_once[OF hi_run]
  have c: "is_content_frame (res_frames hi_session ! 1)"
    by (simp add: hi_session_def is_content_frame_def)
  have "1 < length (res_frames hi_session)" by (simp add: hi_session_def)
  then have "\<exists>j < 1. is_role_frame (res_frames hi_session ! j)" using t c by blast
  then have "is_role_frame (res_frames hi_session ! 0)" by simp
  then show ?thesis using hi_run c t by blast
qed

lemma loop_then_after:
  assumes "processClaudeStream P claudeStream g stream = (Inr ret, l, s)"
  obtains l0 s0 where "chunk_loop P claudeStream g (initial_locals, stream) = (Inr (), l0, s0)"
    and "after_loop (l0, s0) = (Inr ret, l, s)"
proof -
  obtain r0 l0 s0 where cl: "chunk_loop P claudeStream g (initial_locals, stream) = (r0, l0, s0)"
    by (cases "chunk_loop P claudeStream g (initial_locals, stream)")
  obtain r1 l1 s1 where al: "after_loop (l0, s0) = (r1, l1, s1)"
    by (cases "after_loop (l0, s0)")
  from assms cl al have "r0 = Inr () \<and> r1 = Inr ret \<and> l1 = l \<and> s1 = s"
    by (cases r0; cases r1) (auto simp: processClaudeStream_def)
  then show ?thesis using that cl al by simp
qed

lemma late_calls_not_terminal: "terminal_call \<notin> set (late_calls l)"
  by (simp add: late_calls_def terminal_call_def)

lemma frames_end_stream:
  "\<not> closed s \<Longrightarrow> res_frames (end_stream s) =
      (if res_throws s (res_calls s) then res_frames s else res_frames s @ [Done_marker])"
  by (simp add: end_stream_def res_write_def res_end_def)

text \<open>
  Claim C2.  When \<^verbatim>\<open>processClaudeStream\<close> returns (throws nothing), it has called
  \<^verbatim>\<open>writeChunk\<close> with the terminal delta (empty delta, finish reason \<^verbatim>\<open>stop\<close>) exactly
  once, in its last call.  If the session is still open then (so that \<^verbatim>\<open>end()\<close> goes on to
  send the marker), the transport holds exactly the frames of these calls, the terminal
  delta last, and \<^verbatim>\<open>end()\<close> puts the \<^verbatim>\<open>[DONE]\<close> marker right behind it (unless that very
  write fails, and then adds nothing).
\<close>

theorem single_terminal_delta_last:
  assumes "processClaudeStream P claudeStream g (createStream throws m) = (Inr ret, l, s)"
  shows "\<exists>pre. writeChunkCalls l = pre @ [terminal_call] \<and> terminal_call \<notin> set pre
           \<and> (\<not> closed s \<longrightarrow>
                 res_frames s = map (frame_of m) pre @ [frame_of m terminal_call]
               \<and> res_frames (end_stream s) =
                   (if res_throws s (res_calls s) then res_frames s
                    else map (frame_of m) pre @ [frame_of m terminal_call, Done_marker]))"
proof -
  obtain l0 s0 where cl: "chunk_loop P claudeStream g (initial_locals, createStream throws m) = (Inr (), l0, s0)"
    and al: "after_loop (l0, s0) = (Inr ret, l, s)"
    using loop_then_after[OF assms(1)] by blast
  have c0: "calls_inv l0" using calls_chunk_loop[OF _ cl] calls_initial by simp
  have w: "wire_inv m (l, s)"
    using wire_after_loop[OF wire_chunk_loop[OF wire_initial cl] al] .
  let ?pre = "writeChunkCalls l0 @ late_calls l0"
  have calls: "writeChunkCalls l = ?pre @ [terminal_call]"
    using after_loop_Inr(2)[OF al] by simp
  have nt: "terminal_call \<notin> set ?pre"
    using c0 late_calls_not_terminal by (simp add: calls_inv_def)
  have wire: "\<not> closed s \<longrightarrow> res_frames s = map (frame_of m) ?pre @ [frame_of m terminal_call]"
    using w calls by (simp add: wire_inv_def)
  show ?thesis
    apply (rule exI[of _ ?pre])
    using calls nt wire frames_end_stream[of s] by auto
qed

theorem single_terminal_delta_last_witness:
  "processClaudeStream test_platform [Yield hi_envelope] Returned (createStream (\<lambda>n. False) ''m'')
     = (Inr ''Hi'', hi_locals, hi_session)
   \<and> \<not> closed hi_session
   \<and> res_frames (end_stream hi_session)
       = [frame_of ''m'' (Role_delta, None), frame_of ''m'' (Content_delta ''Hi'', None),
          frame_of ''m'' terminal_call, Done_marker]"
proof -
  obtain pre where pre: "writeChunkCalls hi_locals = pre @ [terminal_call]"
    and w: "\<not> closed hi_session \<longrightarrow>
                 res_frames hi_session = map (frame_of ''m'') pre @ [frame_of ''m'' terminal_call]
               \<and> res_frames (end_stream hi_session) =
                   (if res_throws hi_session (res_calls hi_session) then res_frames hi_session
                    else map (frame_of ''m'') pre @ [frame_of ''m'' terminal_call, Done_marker])"
    using single_terminal_delta_last[OF hi_run] by blast
  have "pre = [(Role_delta, None), (Content_delta ''Hi'', None)]"
    using pre by (simp add: hi_locals_def terminal_call_def)
  moreover have "\<not> closed hi_session" "\<not> res_throws hi_session (res_calls hi_session)"
    by (simp_all add: hi_session_def)
  ultimately show ?thesis using w hi_run by simp
qed


lemma mono_process_chunk:
  "process_chunk pc st = (r, st') \<Longrightarrow> prefix (assistantContent (fst st)) (assistantContent (fst st'))"
proof (cases pc)
  case (Assistant_message content)
  assume "process_chunk pc st = (r, st')"
  then show ?thesis using Assistant_message
    by (cases content)
       (auto simp: Let_def send_content_def call_writeChunk_def split: if_splits prod.splits)
next
  case (Tool_calls t)
  assume "process_chunk pc st = (r, st')"
  then show ?thesis using Tool_calls
    by (auto simp: Let_def call_writeChunk_def split: if_splits prod.splits)
qed auto

lemma mono_chunk_loop:
  "chunk_loop P feeds g st = (r, st') \<Longrightarrow> prefix (assistantContent (fst st)) (assistantContent (fst st'))"
proof (induction P feeds g st rule: chunk_loop.induct)
  case (4 P chunk rest g st)
  let ?l = "(fst st)\<lparr>chunkCount := Suc (chunkCount (fst st))\<rparr>"
  show ?case
  proof (cases "isClosed (snd st)")
    case True
    then show ?thesis using 4(2) by (auto simp: Let_def)
  next
    case False
    obtain r1 st1 where p: "process_chunk (parseClaudeChunk P chunk) (?l, snd st) = (r1, st1)"
      by (cases "process_chunk (parseClaudeChunk P chunk) (?l, snd st)")
    have m1: "prefix (assistantContent (fst st)) (assistantContent (fst st1))"
      using mono_process_chunk[OF p] by simp
    show ?thesis
    proof (cases r1)
      case (Inl e)
      then show ?thesis using 4(2) False p m1 by (auto simp: Let_def)
    next
      case (Inr u)
      then have "chunk_loop P rest g st1 = (r, st')" using 4(2) False p by (auto simp: Let_def)
      then have "prefix (assistantContent (fst st1)) (assistantContent (fst st'))"
        using 4(1)[OF refl False _ _ ] p Inr by auto
      then show ?thesis using m1 by (rule prefix_order.trans[rotated])
    qed
  qed
qed auto

lemma mono_split:
  "chunk_loop P xs Returned st = (r1, st1) \<Longrightarrow> chunk_loop P (xs @ ys) g st = (r2, st2) \<Longrightarrow>
     prefix (assistantContent (fst st1)) (assistantContent (fst st2))"
proof (induction xs arbitrary: st)
  case Nil
  then show ?case using mono_chunk_loop[of P ys g st r2 st2] by simp
next
  case (Cons x xs)
  show ?case
  proof (cases x)
    case Client_gone
    then show ?thesis using Cons.IH[of "(fst st, on_close (snd st))"] Cons.prems by simp
  next
    case (Yield chunk)
    let ?l = "(fst st)\<lparr>chunkCount := Suc (chunkCount (fst st))\<rparr>"
    show ?thesis
    proof (cases "isClosed (snd st)")
      case True
      then show ?thesis using Cons.prems Yield by (auto simp: Let_def)
    next
      case False
      obtain r0 st0 where p: "process_chunk (parseClaudeChunk P chunk) (?l, snd st) = (r0, st0)"
        by (cases "process_chunk (parseClaudeChunk P chunk) (?l, snd st)")
      show ?thesis
      proof (cases r0)
        case (Inl e)
        then show ?thesis using Cons.prems Yield False p by (auto simp: Let_def)
      next
        case (Inr u)
        then show ?thesis using Cons.prems Yield False p Cons.IH[of st0] by (auto simp: Let_def)
      qed
    qed
  qed
qed

lemma written_content_frames:
  "written_content (map (frame_of m) calls) = called_content calls"
  by (induction calls) (simp_all add: written_content_def called_content_def frame_of_def)

lemma called_content_append [simp]:
  "called_content (xs @ ys) = called_content xs @ called_content ys"
  by (simp add: called_content_def)

text \<open>
  Claim C3.  When \<^verbatim>\<open>processClaudeStream\<close> returns, the text it returns is the
  concatenation, in order, of the contents of the content deltas it called \<^verbatim>\<open>writeChunk\<close>
  with (the fallback message included, which is then the only one), and on a session
  still open also of those on the transport.  The accumulated text only grows: what was
  accumulated once the loop had consumed any initial part \<open>xs\<close> of the stream is a prefix
  of the text returned.
\<close>

theorem returned_text_is_written_content:
  assumes "processClaudeStream P claudeStream g (createStream throws m) = (Inr ret, l, s)"
  shows "ret = concat (called_content (writeChunkCalls l))
       \<and> (\<not> closed s \<longrightarrow> ret = concat (written_content (res_frames s)))
       \<and> (\<forall>xs ys r1 l1 s1. claudeStream = xs @ ys
             \<and> chunk_loop P xs Returned (initial_locals, createStream throws m) = (r1, l1, s1)
             \<longrightarrow> prefix (assistantContent l1) ret)"
proof -
  obtain l0 s0 where cl: "chunk_loop P claudeStream g (initial_locals, createStream throws m) = (Inr (), l0, s0)"
    and al: "after_loop (l0, s0) = (Inr ret, l, s)"
    using loop_then_after[OF assms(1)] by blast
  have c0: "calls_inv l0" using calls_chunk_loop[OF _ cl] calls_initial by simp
  have w: "wire_inv m (l, s)"
    using wire_after_loop[OF wire_chunk_loop[OF wire_initial cl] al] .
  note a = after_loop_Inr[OF al]
  have grow: "prefix (assistantContent l0) ret"
    using a(3,4) c0 by (auto simp: calls_inv_def)
  have eq: "ret = concat (called_content (writeChunkCalls l))"
    using a(2,3,4) c0
    by (auto simp: calls_inv_def late_calls_def called_content_def terminal_call_def)
  have eqw: "\<not> closed s \<longrightarrow> ret = concat (written_content (res_frames s))"
    using eq w written_content_frames[of m "writeChunkCalls l"] by (simp add: wire_inv_def)
  have "\<And>xs ys r1 l1 s1. claudeStream = xs @ ys \<Longrightarrow>
          chunk_loop P xs Returned (initial_locals, createStream throws m) = (r1, l1, s1) \<Longrightarrow>
          prefix (assistantContent l1) ret"
  proof -
    fix xs ys r1 l1 s1
    assume sp: "claudeStream = xs @ ys"
      and pr: "chunk_loop P xs Returned (initial_locals, createStream throws m) = (r1, l1, s1)"
    have "prefix (assistantContent l1) (assistantContent l0)"
      using mono_split[OF pr, of ys g "Inr ()" "(l0, s0)"] cl sp by simp
    then show "prefix (assistantContent l1) ret" using grow by (rule prefix_order.trans)
  qed
  then show ?thesis using eq eqw by blast
qed

theorem returned_text_is_written_content_witness:
  "processClaudeStream test_platform [Yield hi_envelope] Returned (createStream (\<lambda>n. False) ''m'')
     = (Inr ''Hi'', hi_locals, hi_session)
   \<and> \<not> closed hi_session
   \<and> ''Hi'' = concat (called_content (writeChunkCalls hi_locals))
   \<and> ''Hi'' = concat (written_content (res_frames hi_session))
   \<and> prefix (assistantContent initial_locals) ''Hi''"
proof -
  have c: "\<not> closed hi_session" by (simp add: hi_session_def)
  have l: "chunk_loop test_platform [] Returned (initial_locals, createStream (\<lambda>n. False) ''m'')
             = (Inr (), initial_locals, createStream (\<lambda>n. False) ''m'')"
    by simp
  show ?thesis
    using returned_text_is_written_content[OF hi_run] hi_run c l by force
qed


text \<open>
  Claim C5.  When the loop ends with the role sent and nothing else (\<open>roleSent\<close>, not
  \<open>contentSent\<close>), no call of \<^verbatim>\<open>writeChunk\<close> so far carried content or tool calls; after
  the loop the function makes exactly two more calls, the fallback message as a content
  delta and the terminal delta, hands the fallback message to the callback (its only
  call) and returns it.  On a session still open in the end the transport has received
  exactly these two frames after those of the loop.
\<close>

theorem fallback_when_no_content:
  assumes "chunk_loop P claudeStream g (initial_locals, createStream throws m) = (Inr (), l, s)"
    and "roleSent l" and "\<not> contentSent l"
  shows "\<exists>l' s'.
           processClaudeStream P claudeStream g (createStream throws m) = (Inr fallbackMessage, l', s')
         \<and> (\<forall>c \<in> set (writeChunkCalls l). \<not> is_content_delta (fst c) \<and> \<not> is_tool_calls_delta (fst c))
         \<and> writeChunkCalls l' =
             writeChunkCalls l @ [(Content_delta fallbackMessage, None), terminal_call]
         \<and> callbackCalls l' = [fallbackMessage]
         \<and> (\<not> closed s' \<longrightarrow>
               res_frames s' = res_frames s @
                 [frame_of m (Content_delta fallbackMessage, None), frame_of m terminal_call])"
proof -
  have c0: "calls_inv l" using calls_chunk_loop[OF _ assms(1)] calls_initial by simp
  have w0: "wire_inv m (l, s)" using wire_chunk_loop[OF wire_initial assms(1)] .
  have cc: "0 < chunkCount l" using c0 assms(2) by (simp add: calls_inv_def)
  obtain r l' s' where al: "after_loop (l, s) = (r, l', s')" by (cases "after_loop (l, s)")
  have r: "r = Inr (assistantContent l')" using al cc by (auto simp: after_loop_def Let_def)
  note a = after_loop_Inr[OF al[unfolded r]]
  have ret: "assistantContent l' = fallbackMessage" using a(4) assms(2,3) by simp
  have run: "processClaudeStream P claudeStream g (createStream throws m)
               = (Inr fallbackMessage, l', s')"
    using assms(1) al r ret by (simp add: processClaudeStream_def)
  have quiet: "\<forall>c \<in> set (writeChunkCalls l). \<not> is_content_delta (fst c) \<and> \<not> is_tool_calls_delta (fst c)"
    using c0 assms(3) by (simp add: calls_inv_def)
  have calls: "writeChunkCalls l' =
      writeChunkCalls l @ [(Content_delta fallbackMessage, None), terminal_call]"
    using a(2) assms(2,3) by (simp add: late_calls_def)
  have cb: "callbackCalls l' = [fallbackMessage]"
    using a(5) assms(2,3) c0 by (simp add: calls_inv_def)
  have w1: "wire_inv m (l', s')" using wire_after_loop[OF w0 al] .
  have cl: "closed s \<longrightarrow> closed s'"
    using a(6) by (auto simp: final_chunk_def fallback_or_role_def call_writeChunk_def
        split: if_splits prod.splits)
  have wire: "\<not> closed s' \<longrightarrow>
               res_frames s' = res_frames s @
                 [frame_of m (Content_delta fallbackMessage, None), frame_of m terminal_call]"
    using w0 w1 cl calls by (auto simp: wire_inv_def)
  show ?thesis
    apply (rule exI[of _ l'])
    apply (rule exI[of _ s'])
    using run quiet calls cb wire by simp
qed

theorem fallback_when_no_content_witness:
  "chunk_loop test_platform [Yield blank_text] Returned
       (initial_locals, createStream (\<lambda>n. False) ''m'')
     = (Inr (), blank_locals, blank_session)
   \<and> roleSent blank_locals \<and> \<not> contentSent blank_locals
   \<and> fst (processClaudeStream test_platform [Yield blank_text] Returned
            (createStream (\<lambda>n. False) ''m'')) = Inr fallbackMessage
   \<and> writeChunkCalls (fst (snd (processClaudeStream test_platform [Yield blank_text] Returned
            (createStream (\<lambda>n. False) ''m''))))
       = [(Role_delta, None), (Content_delta fallbackMessage, None), terminal_call]
   \<and> callbackCalls (fst (snd (processClaudeStream test_platform [Yield blank_text] Returned
            (createStream (\<lambda>n. False) ''m'')))) = [fallbackMessage]"
proof -
  have r: "roleSent blank_locals" and c: "\<not> contentSent blank_locals"
    by (simp_all add: blank_locals_def)
  obtain l' s' where
    "processClaudeStream test_platform [Yield blank_text] Returned
       (createStream (\<lambda>n. False) ''m'') = (Inr fallbackMessage, l', s')"
    "writeChunkCalls l' =
       writeChunkCalls blank_locals @ [(Content_delta fallbackMessage, None), terminal_call]"
    "callbackCalls l' = [fallbackMessage]"
    using fallback_when_no_content[OF blank_loop r c] by blast
  then show ?thesis using blank_loop r c by (simp add: blank_locals_def)
qed

section \<open>Properties of the request handler\<close>

lemma tools_given_array:
  "(\<exists>xs. req_tools request = Arr xs \<and> xs \<noteq> []) \<or> (\<exists>xs. req_functions request = Arr xs \<and> xs \<noteq> [])
     \<Longrightarrow> tools_given P request"
  by (auto simp: tools_given_def greater_than_zero_def)

text \<open>
  Claim C10.  For a request whose \<^verbatim>\<open>tools\<close> or \<^verbatim>\<open>functions\<close> is a non-empty array, the
  streaming handler, the non-streaming handler and so \<^verbatim>\<open>handle\<close> in either mode answer
  with status 400 and the message \<^verbatim>\<open>Tool/function calling is not supported\<close>, and the
  Claude CLI is not spawned.
\<close>

theorem tools_rejected_without_spawn:
  assumes "(\<exists>xs. req_tools request = Arr xs \<and> xs \<noteq> [])
         \<or> (\<exists>xs. req_functions request = Arr xs \<and> xs \<noteq> [])"
  shows "handleStreamingRequest P request w =
           \<lparr> spawned = False, caught = None,
             response = Json_response 400
               (Obj [(''error'',
                  Obj [(''message'', Str ''Tool/function calling is not supported''),
                       (''type'', Str ''invalid_request_error''),
                       (''code'', Str ''invalid_request_error'')])]) \<rparr>
       \<and> handleNonStreamingRequest P request w = handleStreamingRequest P request w
       \<and> handle P request w = handleStreamingRequest P request w"
  using tools_given_array[OF assms, of P]
  by (simp add: handle_def handleStreamingRequest_def handleNonStreamingRequest_def
      not_supported_def createErrorResponse_def)

theorem tools_rejected_without_spawn_witness:
  "spawned (handle test_platform (plain_request True (Arr [Obj []]))
              (quiet_world \<lparr>stdout_chunks = [''Hi''], stderr_output = [], exit_code = 0\<rparr>)) = False
   \<and> response (handle test_platform (plain_request False (Arr [Obj []]))
              (quiet_world \<lparr>stdout_chunks = [''Hi''], stderr_output = [], exit_code = 0\<rparr>))
       = Json_response 400
               (Obj [(''error'',
                  Obj [(''message'', Str ''Tool/function calling is not supported''),
                       (''type'', Str ''invalid_request_error''),
                       (''code'', Str ''invalid_request_error'')])])"
proof -
  have a: "\<And>b. (\<exists>xs. req_tools (plain_request b (Arr [Obj []])) = Arr xs \<and> xs \<noteq> [])
         \<or> (\<exists>xs. req_functions (plain_request b (Arr [Obj []])) = Arr xs \<and> xs \<noteq> [])"
    by (simp add: plain_request_def)
  show ?thesis
    using tools_rejected_without_spawn[OF a[of True], of test_platform
        "quiet_world \<lparr>stdout_chunks = [''Hi''], stderr_output = [], exit_code = 0\<rparr>"]
      tools_rejected_without_spawn[OF a[of False], of test_platform
        "quiet_world \<lparr>stdout_chunks = [''Hi''], stderr_output = [], exit_code = 0\<rparr>"]
    by simp
qed

lemma closed_writeError [simp]:
  "closed (snd (writeError e s)) = (closed s \<or> res_throws s (res_calls s))"
  by (simp add: writeError_def write_sse_def res_write_def)

lemma frames_end_stream':
  "res_frames (end_stream s) = res_frames s \<or> res_frames (end_stream s) = res_frames s @ [Done_marker]"
  by (simp add: end_stream_def res_write_def res_end_def)

text \<open>
  Claim C6, as stated, fails: a subprocess that writes nothing and exits with code 2
  produces no chunk, and the request fails with the exit error, not with the no-output
  error.
\<close>

theorem no_output_counterexample:
  "fst (executeStreaming test_platform silent_failure) = []
   \<and> caught (handleStreamingRequest test_platform (plain_request True Undefined)
               (quiet_world silent_failure))
       = Some ''Claude CLI streaming error: Process exited with code 2''"
  by (simp add: handleStreamingRequest_def tools_given_def plain_request_def quiet_world_def
      silent_failure_def executeStreaming_def stream_feed_def processClaudeStream_def
      streaming_error_def exit_message_def show_int_def decimal.simps isClosed_def
      createStream_def writeError_def write_sse_def res_write_def Let_def split: prod.splits)

lemma no_yield_loop:
  "chunk_loop P (stream_feed [] gone) g (l, s) =
     (case g of Returned \<Rightarrow> Inr () | Thrown e \<Rightarrow> Inl e,
      l, case gone of None \<Rightarrow> s | Some n \<Rightarrow> on_close s)"
  by (cases g; cases gone) (simp_all add: stream_feed_def)

lemma no_yield_process:
  "\<exists>s'. processClaudeStream P (stream_feed [] gone) g s =
      (Inl (case g of Returned \<Rightarrow> no_response_message | Thrown e \<Rightarrow> e), initial_locals, s')
    \<and> (\<forall>f \<in> set (res_frames s'). delta_of f = None \<or> f \<in> set (res_frames s))"
  by (cases g; cases gone)
     (auto simp: processClaudeStream_def no_yield_loop after_loop_def initial_locals_def
       isClosed_def on_close_def)

text \<open>
  Claim C6, amended.  When the subprocess exits with code 0 and no chunk was yielded,
  the streaming request fails: with the no-output error of \<^verbatim>\<open>executeStreaming\<close> when
  the standard output had no data at all, and with the no-response error of
  \<^verbatim>\<open>processClaudeStream\<close> when it had only blank lines.  No delta of any kind reaches
  the client, only error payloads and the end marker.
\<close>

theorem no_output_fails_without_content:
  assumes "\<not> tools_given P request"
    and "exit_code (the_subprocess w) = 0"
    and "fst (executeStreaming P (the_subprocess w)) = []"
  shows "caught (handleStreamingRequest P request w) =
           Some (if stdout_chunks (the_subprocess w) = []
                 then streaming_error no_output_message (stderr_output (the_subprocess w))
                 else no_response_message)
       \<and> (\<forall>f \<in> set (frames_sent (response (handleStreamingRequest P request w))).
             delta_of f = None)"
proof -
  let ?g = "snd (executeStreaming P (the_subprocess w))"
  let ?s0 = "createStream (transport_throws w) (req_model request)"
  let ?e = "if stdout_chunks (the_subprocess w) = []
            then streaming_error no_output_message (stderr_output (the_subprocess w))
            else no_response_message"
  have g: "(case ?g of Returned \<Rightarrow> no_response_message | Thrown e \<Rightarrow> e) = ?e"
    using assms(2) by (simp add: executeStreaming_def)
  obtain s' where run: "processClaudeStream P (stream_feed [] (client_gone_at w)) ?g ?s0
                          = (Inl ?e, initial_locals, s')"
    and fr: "\<forall>f \<in> set (res_frames s'). delta_of f = None \<or> f \<in> set (res_frames ?s0)"
    using no_yield_process[of P "client_gone_at w" ?g ?s0] g by auto
  have fr': "\<forall>f \<in> set (res_frames s'). delta_of f = None"
    using fr by (simp add: createStream_def)
  let ?s1 = "if \<not> isClosed s' then snd (writeError ?e s') else s'"
  let ?s2 = "if \<not> isClosed ?s1 then end_stream ?s1 else ?s1"
  have h: "handleStreamingRequest P request w =
             \<lparr> spawned = True, caught = Some ?e, response = Event_stream ?s2 \<rparr>"
    using assms(1,3) run by (simp add: handleStreamingRequest_def Let_def)
  have f1: "\<forall>f \<in> set (res_frames ?s1). delta_of f = None"
    using fr' by auto
  have f2: "\<forall>f \<in> set (res_frames ?s2). delta_of f = None"
    using f1 frames_end_stream'[of ?s1] by (cases "isClosed ?s1") auto
  show ?thesis using h f2 by simp
qed

theorem no_output_fails_without_content_witness:
  "\<not> tools_given test_platform (plain_request True Undefined)
   \<and> exit_code (the_subprocess (quiet_world silent_success)) = 0
   \<and> fst (executeStreaming test_platform (the_subprocess (quiet_world silent_success))) = []
   \<and> caught (handleStreamingRequest test_platform (plain_request True Undefined)
               (quiet_world silent_success))
       = Some ''Claude CLI streaming error: No output from Claude CLI - check model name and authentication''"
proof -
  have 1: "\<not> tools_given test_platform (plain_request True Undefined)"
    by (simp add: tools_given_def plain_request_def)
  have 2: "exit_code (the_subprocess (quiet_world silent_success)) = 0"
    by (simp add: quiet_world_def silent_success_def)
  have 3: "fst (executeStreaming test_platform (the_subprocess (quiet_world silent_success))) = []"
    by (simp add: quiet_world_def silent_success_def executeStreaming_def)
  show ?thesis
    using 1 2 3 no_output_fails_without_content[OF 1 2 3]
    by (simp add: quiet_world_def silent_success_def streaming_error_def no_output_message_def)
qed

section \<open>Properties of the content filter\<close>

lemma remove_blocks_none: "\<not> has_block opn cls s \<Longrightarrow> remove_blocks opn cls s = s"
  by (induction s) (auto split: option.splits)

lemma remove_markers_none: "\<not> has_marker opn s \<Longrightarrow> remove_markers opn s = s"
  by (induction s) (auto split: option.splits)

lemma collapse_none: "\<not> collapsible s \<Longrightarrow> collapse_newlines s = s"
  by (induction s) auto

lemma is_space_newline [simp]: "is_space newline"
  by (simp add: is_space_def newline_def)

lemma filter_no_markers:
  "\<not> contains_markers s \<Longrightarrow> filterContent s = trim (collapse_newlines s)"
  by (cases "s = []")
     (simp_all add: filterContent_def contains_markers_def remove_blocks_none remove_markers_none
       trim_def)

text \<open>The part of the string behind a match: what is left of the run, and the rest.\<close>

lemma drop_match_end:
  "drop (match_end cs) cs
     = rev (takeWhile (\<lambda>x. x \<noteq> newline) (rev (blank_run cs))) @ dropWhile is_space cs"
proof -
  let ?R = "blank_run cs"
  let ?T = "rev (takeWhile (\<lambda>x. x \<noteq> newline) (rev ?R))"
  let ?A = "rev (dropWhile (\<lambda>x. x \<noteq> newline) (rev ?R))"
  have "rev ?R = takeWhile (\<lambda>x. x \<noteq> newline) (rev ?R) @ dropWhile (\<lambda>x. x \<noteq> newline) (rev ?R)"
    by simp
  then have "rev (rev ?R) = ?A @ ?T" by (metis rev_append)
  then have R: "?R = ?A @ ?T" by simp
  have len: "match_end cs = length ?A"
    unfolding match_end_def using arg_cong[OF R, of length] by simp
  have "cs = ?R @ dropWhile is_space cs" by (simp add: blank_run_def)
  then have "cs = (?A @ ?T) @ dropWhile is_space cs" using R by metis
  then have cs: "cs = ?A @ ?T @ dropWhile is_space cs" by simp
  have "drop (length ?A) (?A @ ?T @ dropWhile is_space cs) = ?T @ dropWhile is_space cs"
    by simp
  then show ?thesis using cs len by metis
qed

lemma tail_spaces:
  assumes "x \<in> set (rev (takeWhile (\<lambda>x. x \<noteq> newline) (rev (blank_run cs))))"
  shows "is_space x \<and> x \<noteq> newline"
proof -
  have x: "x \<in> set (takeWhile (\<lambda>x. x \<noteq> newline) (rev (blank_run cs)))"
    using assms by simp
  then have "x \<in> set (rev (blank_run cs))" and ne: "x \<noteq> newline"
    by (auto dest: set_takeWhileD)
  then have "x \<in> set (takeWhile is_space cs)" by (simp add: blank_run_def)
  then have "is_space x" by (auto dest: set_takeWhileD)
  then show ?thesis using ne by simp
qed

lemma collapse_skip:
  "\<forall>x \<in> set t. x \<noteq> newline \<Longrightarrow> collapse_newlines (t @ ys) = t @ collapse_newlines ys"
  by (induction t) auto

lemma blank_run_collapse_start:
  "s = [] \<or> \<not> is_space (hd s) \<Longrightarrow> blank_run (collapse_newlines s) = []"
  by (cases s) (auto simp: blank_run_def)

lemma blank_run_collapse_rest: "blank_run (collapse_newlines (dropWhile is_space cs)) = []"
  using blank_run_collapse_start[of "dropWhile is_space cs"] hd_dropWhile[of is_space cs]
  by blast

lemma blank_run_after_match:
  "blank_run (collapse_newlines (drop (match_end cs) cs))
     = rev (takeWhile (\<lambda>x. x \<noteq> newline) (rev (blank_run cs)))"
proof -
  let ?T = "rev (takeWhile (\<lambda>x. x \<noteq> newline) (rev (blank_run cs)))"
  have t: "\<And>x. x \<in> set ?T \<Longrightarrow> is_space x \<and> x \<noteq> newline" using tail_spaces by blast
  have "collapse_newlines (?T @ dropWhile is_space cs)
          = ?T @ collapse_newlines (dropWhile is_space cs)"
    by (rule collapse_skip) (use t in blast)
  then have "collapse_newlines (drop (match_end cs) cs)
          = ?T @ collapse_newlines (dropWhile is_space cs)"
    by (simp only: drop_match_end)
  moreover have "blank_run (?T @ collapse_newlines (dropWhile is_space cs))
      = ?T @ blank_run (collapse_newlines (dropWhile is_space cs))"
    unfolding blank_run_def[of "_ @ _"] blank_run_def[of "collapse_newlines _"]
    by (rule takeWhile_append2) (use t in blast)
  ultimately show ?thesis using blank_run_collapse_rest by simp
qed

lemma no_newline_after_match:
  "count_list (blank_run (collapse_newlines (drop (match_end cs) cs))) newline = 0"
proof -
  have "newline \<notin> set (rev (takeWhile (\<lambda>x. x \<noteq> newline) (rev (blank_run cs))))"
    using tail_spaces[of newline cs] by blast
  then have "count_list (rev (takeWhile (\<lambda>x. x \<noteq> newline) (rev (blank_run cs)))) newline = 0"
    by (rule count_list_0_iff[THEN iffD2])
  then show ?thesis by (simp only: blank_run_after_match)
qed

lemma blank_run_Cons: "blank_run (c # cs) = (if is_space c then c # blank_run cs else [])"
  by (simp add: blank_run_def)

lemma count_blank_run_collapse:
  "count_list (blank_run (collapse_newlines s)) newline \<le> count_list (blank_run s) newline"
proof (induction s rule: collapse_newlines.induct)
  case 1
  then show ?case by simp
next
  case (2 c cs)
  show ?case
  proof (cases "c = newline \<and> 2 \<le> count_list (blank_run cs) newline")
    case True
    then show ?thesis
      using no_newline_after_match[of cs] by (simp add: blank_run_Cons)
  next
    case False
    then show ?thesis using 2(2) by (auto simp: blank_run_Cons)
  qed
qed

lemma collapse_not_collapsible: "\<not> collapsible (collapse_newlines s)"
proof (induction s rule: collapse_newlines.induct)
  case 1
  then show ?case by simp
next
  case (2 c cs)
  show ?case
  proof (cases "c = newline \<and> 2 \<le> count_list (blank_run cs) newline")
    case True
    then show ?thesis
      using 2(1) no_newline_after_match[of cs] by (simp add: blank_run_Cons)
  next
    case False
    then show ?thesis
      using 2(2) count_blank_run_collapse[of cs] by auto
  qed
qed

lemma collapsible_suffix: "collapsible ys \<Longrightarrow> collapsible (xs @ ys)"
  by (induction xs) auto

lemma count_blank_run_append:
  "count_list (blank_run cs) newline \<le> count_list (blank_run (cs @ ys)) newline"
proof (cases "\<forall>x \<in> set cs. is_space x")
  case True
  have a: "blank_run cs = cs"
    unfolding blank_run_def using True by (simp add: takeWhile_eq_all_conv)
  have b: "blank_run (cs @ ys) = cs @ blank_run ys"
    unfolding blank_run_def using True by (simp add: takeWhile_append)
  show ?thesis unfolding a b by simp
next
  case False
  then have "blank_run (cs @ ys) = blank_run cs"
    unfolding blank_run_def by (auto simp: takeWhile_append)
  then show ?thesis by simp
qed

lemma collapsible_prefix: "collapsible xs \<Longrightarrow> collapsible (xs @ ys)"
proof (induction xs)
  case Nil
  then show ?case by simp
next
  case (Cons c cs)
  then show ?case using count_blank_run_append[of cs ys] by auto
qed

lemma trim_decomposition:
  "\<exists>a b. s = a @ trim s @ b"
proof -
  let ?y = "dropWhile is_space s"
  have "rev ?y = takeWhile is_space (rev ?y) @ dropWhile is_space (rev ?y)" by simp
  then have "rev (rev ?y) = rev (dropWhile is_space (rev ?y)) @ rev (takeWhile is_space (rev ?y))"
    by (metis rev_append)
  then have "?y = trim s @ rev (takeWhile is_space (rev ?y))" by (simp add: trim_def)
  moreover have "s = takeWhile is_space s @ ?y" by simp
  ultimately show ?thesis by metis
qed

lemma trim_not_collapsible: "\<not> collapsible s \<Longrightarrow> \<not> collapsible (trim s)"
  using trim_decomposition[of s] collapsible_prefix collapsible_suffix by metis

lemma dropWhile_fixed: "s = [] \<or> \<not> P (hd s) \<Longrightarrow> dropWhile P s = s"
  by (cases s) auto

lemma trim_idem: "trim (trim s) = trim s"
proof -
  let ?y = "dropWhile is_space s"
  let ?t = "rev (dropWhile is_space (rev ?y))"
  have t: "trim s = ?t" by (simp add: trim_def)
  have front: "dropWhile is_space ?t = ?t"
  proof (cases "?t = []")
    case True
    show ?thesis by (simp only: True dropWhile.simps)
  next
    case False
    obtain w where y: "?y = ?t @ w"
      by (metis rev_append rev_rev_ident takeWhile_dropWhile_id)
    then have "?y \<noteq> []" using False by (metis append_is_Nil_conv)
    then have "\<not> is_space (hd ?y)" using hd_dropWhile by blast
    moreover have "hd ?y = hd ?t" using y False by (metis hd_append2)
    ultimately show ?thesis using dropWhile_fixed[of ?t is_space] by simp
  qed
  have "trim ?t = rev (dropWhile is_space (rev (dropWhile is_space ?t)))"
    by (simp only: trim_def)
  also have "\<dots> = rev (dropWhile is_space (rev ?t))" by (simp only: front)
  also have "\<dots> = rev (dropWhile is_space (dropWhile is_space (rev ?y)))"
    by (simp only: rev_rev_ident)
  also have "\<dots> = ?t" by (simp only: dropWhile_idem)
  finally show ?thesis by (simp only: t)
qed

lemma filter_fixed:
  assumes "\<not> contains_markers (filterContent s)"
  shows "filterContent (filterContent s) = filterContent s"
proof (cases "s = []")
  case True
  then show ?thesis by (simp add: filterContent_def)
next
  case False
  then obtain z where y: "filterContent s = trim (collapse_newlines z)"
    by (simp add: filterContent_def)
  have nc: "\<not> collapsible (filterContent s)"
    unfolding y using collapse_not_collapsible trim_not_collapsible by blast
  have "filterContent (filterContent s) = trim (collapse_newlines (filterContent s))"
    using filter_no_markers[OF assms] .
  also have "\<dots> = trim (filterContent s)" using collapse_none[OF nc] by simp
  also have "\<dots> = filterContent s" unfolding y by (rule trim_idem)
  finally show ?thesis .
qed

lemma has_block_char: "has_block (a # opn) cls s \<Longrightarrow> a \<in> set s"
  by (induction s) auto

lemma has_marker_char: "has_marker (a # opn) s \<Longrightarrow> a \<in> set s"
  by (induction s) auto

lemma no_markers_without_brackets:
  "CHR ''<'' \<notin> set s \<Longrightarrow> CHR ''['' \<notin> set s \<Longrightarrow> \<not> contains_markers s"
  unfolding contains_markers_def
  using has_block_char[of "CHR ''<''" _ _ s] has_marker_char[of "CHR ''[''" _ s]
  by auto

lemma set_collapse: "set (collapse_newlines s) \<subseteq> insert newline (set s)"
proof (induction s rule: collapse_newlines.induct)
  case 1
  then show ?case by simp
next
  case (2 c cs)
  show ?case
  proof (cases "c = newline \<and> 2 \<le> count_list (blank_run cs) newline")
    case True
    have "set (drop (match_end cs) cs) \<subseteq> set cs" by (rule set_drop_subset)
    then show ?thesis using True 2(1) by auto
  next
    case False
    then show ?thesis using 2(2) by auto
  qed
qed

lemma set_trim: "set (trim s) \<subseteq> set s"
proof -
  have "set (trim s) = set (dropWhile is_space (rev (dropWhile is_space s)))"
    by (simp add: trim_def)
  also have "\<dots> \<subseteq> set (rev (dropWhile is_space s))" by (auto dest: set_dropWhileD)
  also have "\<dots> \<subseteq> set s" by (auto dest: set_dropWhileD)
  finally show ?thesis .
qed

lemma filter_fixed_without_brackets:
  assumes "CHR ''<'' \<notin> set s" and "CHR ''['' \<notin> set s"
  shows "filterContent (filterContent s) = filterContent s"
proof -
  have "filterContent s = trim (collapse_newlines s)"
    using filter_no_markers[OF no_markers_without_brackets[OF assms]] .
  then have "set (filterContent s) \<subseteq> insert newline (set s)"
    using set_trim[of "collapse_newlines s"] set_collapse[of s] by auto
  then have "CHR ''<'' \<notin> set (filterContent s)" and "CHR ''['' \<notin> set (filterContent s)"
    using assms by (auto simp: newline_def)
  then show ?thesis using filter_fixed no_markers_without_brackets by blast
qed

text \<open>
  Claim C4, as stated, fails in both halves.  Removing a \<^verbatim>\<open>[File: ...]\<close> marker can join
  the pieces of a \<^verbatim>\<open>[Tool Use: ...]\<close> marker, which only a second pass removes: the filter
  is not idempotent.  And a text with none of the markers is still trimmed (and has its
  blank lines collapsed): the filter is not the identity on it.
\<close>

theorem filterContent_counterexample:
  "filterContent ''[Tool [File: x]Use: a]'' = ''[Tool Use: a]''
   \<and> filterContent (filterContent ''[Tool [File: x]Use: a]'') = []
   \<and> \<not> contains_markers '' hi''
   \<and> filterContent '' hi'' = ''hi''"
  by (simp add: filterContent_def contains_markers_def trim_def is_space_def newline_def
      blank_run_def is_line_terminator_def)

text \<open>
  Claim C4, amended.  Filtering twice is filtering once whenever the first result has no
  match of the four marker expressions, as is the case whenever the input has neither
  \<^verbatim>\<open><\<close> nor \<^verbatim>\<open>[\<close>.  On a text in which none of the four marker expressions has a
  match the filter only collapses the blank lines and trims; it returns the text itself
  when the text moreover has nothing to collapse and nothing to trim.
\<close>

theorem filterContent_fixed_points:
  "(\<not> contains_markers (filterContent s) \<longrightarrow> filterContent (filterContent s) = filterContent s)
   \<and> (CHR ''<'' \<notin> set s \<and> CHR ''['' \<notin> set s
        \<longrightarrow> filterContent (filterContent s) = filterContent s)
   \<and> (\<not> contains_markers s \<longrightarrow> filterContent s = trim (collapse_newlines s))
   \<and> (\<not> contains_markers s \<and> \<not> collapsible s \<and> trim s = s \<longrightarrow> filterContent s = s)"
  using filter_fixed filter_fixed_without_brackets filter_no_markers collapse_none by auto

theorem filterContent_fixed_points_witness:
  "\<not> contains_markers (''a'' @ [newline, newline, newline] @ ''b '')
   \<and> filterContent (''a'' @ [newline, newline, newline] @ ''b '') = ''a'' @ [newline, newline] @ ''b''
   \<and> filterContent (filterContent (''a'' @ [newline, newline, newline] @ ''b ''))
        = filterContent (''a'' @ [newline, newline, newline] @ ''b '')
   \<and> \<not> collapsible ''hi'' \<and> trim ''hi'' = ''hi'' \<and> filterContent ''hi'' = ''hi''"
proof -
  let ?s = "''a'' @ [newline, newline, newline] @ ''b ''"
  have b: "CHR ''<'' \<notin> set ?s \<and> CHR ''['' \<notin> set ?s" by (simp add: newline_def)
  have m: "\<not> contains_markers ?s"
    by (simp add: contains_markers_def newline_def)
  have v: "trim (collapse_newlines ?s) = ''a'' @ [newline, newline] @ ''b''"
    by (simp add: trim_def is_space_def newline_def blank_run_def match_end_def)
  have h: "\<not> contains_markers ''hi''" "\<not> collapsible ''hi''" "trim ''hi'' = ''hi''"
    by (simp_all add: contains_markers_def newline_def trim_def is_space_def)
  note t = filterContent_fixed_points[of ?s]
  have B: "filterContent ?s = ''a'' @ [newline, newline] @ ''b''"
    using t m v by metis
  have C: "filterContent (filterContent ?s) = filterContent ?s"
    using t b by blast
  have D: "filterContent ''hi'' = ''hi''"
    using filterContent_fixed_points[of "''hi''"] h by blast
  show ?thesis using m B C h(2,3) D by blast
qed

end
